theory Spec2Isabelle
  imports Main
begin

section \<open>EDIFACT PRICAT generator (update2/pricat.py)\<close>

text \<open>
  A shallow embedding of the validate-then-encode pipeline of \<^verbatim>\<open>update2/pricat.py\<close>:
  \<^verbatim>\<open>escape_edifact\<close>, \<^verbatim>\<open>validate_price\<close>, \<^verbatim>\<open>validate_data\<close>,
  \<^verbatim>\<open>generate_edi_segments\<close> and \<^verbatim>\<open>generate_pricat\<close>.

  Conventions of the model.
  \<^item> Python values are the datatype \<open>pyval\<close>; dictionaries have string keys and keep
    their insertion order (an association list read with \<open>map_of\<close>).
  \<^item> Strings are ASCII text: the character classes (\<^verbatim>\<open>\d\<close>, whitespace) and
    \<^verbatim>\<open>upper()\<close> are the ASCII ones.
  \<^item> The interpreter is CPython 3.11 with its default settings: \<^verbatim>\<open>str\<close>, \<^verbatim>\<open>repr\<close> and
    f-strings raise \<^verbatim>\<open>ValueError\<close> on an \<^verbatim>\<open>int\<close> of more than 4300 digits, and \<^verbatim>\<open>decimal\<close>
    is the C implementation. Lists and strings hold far fewer than \<open>10 ^ 18\<close> elements, so
    the item index and the segment count are always printed.
  \<^item> A float is carried by its \<^verbatim>\<open>repr\<close>: the program only prints floats and compares
    them with zero.
  \<^item> Exceptions are values of \<open>exn\<close>; a function that can raise returns \<open>exn + 'a\<close>.
  \<^item> \<^verbatim>\<open>decimal.Decimal\<close> is modelled for finite numbers under the default context
    (precision 28); infinities and NaNs only occur while parsing and always end in
    \<^verbatim>\<open>InvalidOperation\<close>. The constructor accepts the numbers that fit the widest
    context (\<open>MAX_EMAX\<close>, \<open>MIN_ETINY\<close>). The exponent limit \<^verbatim>\<open>Emax = 999999\<close> is checked
    where \<^verbatim>\<open>quantize\<close> checks it; sums of prices stay far below it.
  \<^item> The elements of the two sets of allowed codes are given in the order in which the
    interpreter iterates over them; the order only shows in the text of one message.
  \<^item> Logging is not modelled. The file system is the list of operations performed on it.
\<close>

subsection \<open>Characters and decimal numerals\<close>

definition apos :: char where
  "apos = CHR 0x27"

definition SEG_SEPARATOR :: string where
  "SEG_SEPARATOR = [apos]"

definition UNA_SEGMENT :: string where
  "UNA_SEGMENT = ''UNA:+.? '' @ SEG_SEPARATOR"

definition is_digit :: "char \<Rightarrow> bool" where
  "is_digit c = (c \<in> set ''0123456789'')"

definition is_upper :: "char \<Rightarrow> bool" where
  "is_upper c = (c \<in> set ''ABCDEFGHIJKLMNOPQRSTUVWXYZ'')"

definition is_space :: "char \<Rightarrow> bool" where
  \<comment> \<open>\<^verbatim>\<open>str.isspace\<close> on ASCII: TAB, LF, VT, FF, CR, FS, GS, RS, US and the blank\<close>
  "is_space c = (c \<in> set [CHR 0x09, CHR 0x0A, CHR 0x0B, CHR 0x0C, CHR 0x0D,
                            CHR 0x1C, CHR 0x1D, CHR 0x1E, CHR 0x1F, CHR 0x20])"

definition digit_char :: "nat \<Rightarrow> char" where
  "digit_char d = ''0123456789'' ! d"

definition digit_val :: "char \<Rightarrow> nat" where
  "digit_val c = of_char c - 48"

fun show_nat :: "nat \<Rightarrow> string" where
  "show_nat n = (if n < 10 then [digit_char n]
                 else show_nat (n div 10) @ [digit_char (n mod 10)])"

declare show_nat.simps [simp del]

definition show_int :: "int \<Rightarrow> string" where
  "show_int i = (if i < 0 then ''-'' @ show_nat (nat (- i)) else show_nat (nat i))"

definition nat_of_digits :: "string \<Rightarrow> nat" where
  \<comment> \<open>\<^verbatim>\<open>int(s)\<close> on a string of decimal digits; the empty string is not passed\<close>
  "nat_of_digits s = foldl (\<lambda>a c. 10 * a + digit_val c) 0 s"

definition ndigits :: "nat \<Rightarrow> nat" where
  \<comment> \<open>\<^verbatim>\<open>len(self._int)\<close>: the number of digits of a coefficient\<close>
  "ndigits n = length (show_nat n)"

definition to_upper :: "char \<Rightarrow> char" where
  "to_upper c = (if c \<in> set ''abcdefghijklmnopqrstuvwxyz'' then char_of (of_char c - (32::nat)) else c)"

definition to_lower :: "char \<Rightarrow> char" where
  "to_lower c = (if is_upper c then char_of (of_char c + (32::nat)) else c)"

definition upper :: "string \<Rightarrow> string" where
  "upper s = map to_upper s"

definition lower :: "string \<Rightarrow> string" where
  "lower s = map to_lower s"

definition strip :: "string \<Rightarrow> string" where
  "strip s = rev (dropWhile is_space (rev (dropWhile is_space s)))"

fun join :: "string \<Rightarrow> string list \<Rightarrow> string" where
  "join sep [] = []"
| "join sep [x] = x"
| "join sep (x # y # ys) = x @ sep @ join sep (y # ys)"

definition replace_char :: "char \<Rightarrow> string \<Rightarrow> string \<Rightarrow> string" where
  \<comment> \<open>\<^verbatim>\<open>text.replace(old, new)\<close> for a one-character \<^verbatim>\<open>old\<close>\<close>
  "replace_char old new text = concat (map (\<lambda>c. if c = old then new else [c]) text)"

fun contains_str :: "string \<Rightarrow> string \<Rightarrow> bool" where
  \<comment> \<open>\<^verbatim>\<open>k in s\<close> for two strings: \<open>k\<close> occurs in \<open>s\<close> as a contiguous block\<close>
  "contains_str k [] = (k = [])"
| "contains_str k (c # s) = (take (length k) (c # s) = k \<or> contains_str k s)"

subsection \<open>Decimal numbers\<close>

datatype decimal = Decimal (dsign: bool) (dcoeff: nat) (dexp: int)

datatype rounding = ROUND_HALF_UP | ROUND_HALF_EVEN

datatype parsed = Finite decimal | Special | Invalid

definition prec :: nat where
  "prec = 28"

definition Emax :: int where
  "Emax = 999999"

definition MAX_EMAX :: int where
  \<comment> \<open>the largest exponent of the widest context, in which \<^verbatim>\<open>Decimal(s)\<close> converts\<close>
  "MAX_EMAX = 999999999999999999"

definition MIN_ETINY :: int where
  \<comment> \<open>\<^verbatim>\<open>Etiny\<close> of the widest context: \<^verbatim>\<open>MIN_EMIN - (MAX_PREC - 1)\<close>\<close>
  "MIN_ETINY = - 1999999999999999997"

definition adjusted :: "decimal \<Rightarrow> int" where
  "adjusted d = dexp d + int (ndigits (dcoeff d)) - 1"

definition split_sign :: "string \<Rightarrow> bool \<times> string" where
  "split_sign s = (case s of
       c # r \<Rightarrow> if c = CHR ''-'' then (True, r) else if c = CHR ''+'' then (False, r) else (False, s)
     | [] \<Rightarrow> (False, s))"

definition parse_exponent :: "string \<Rightarrow> int option" where
  \<comment> \<open>the group \<^verbatim>\<open>(E(?P<exp>[-+]?\d+))?\<close> followed by the end of the string\<close>
  "parse_exponent s = (case s of
       [] \<Rightarrow> Some 0
     | c # r \<Rightarrow>
         if to_lower c = CHR ''e'' then
           (let (neg, ds) = split_sign r in
            if ds \<noteq> [] \<and> list_all is_digit ds
            then Some (if neg then - int (nat_of_digits ds) else int (nat_of_digits ds))
            else None)
         else None)"

definition parse_special :: "string \<Rightarrow> bool" where
  \<comment> \<open>\<^verbatim>\<open>Inf(inity)?\<close> or \<^verbatim>\<open>(s)?NaN\d*\<close>, ignoring case\<close>
  "parse_special s = (let l = lower s in
     l = ''inf'' \<or> l = ''infinity'' \<or>
     (take 3 l = ''nan'' \<and> list_all is_digit (drop 3 l)) \<or>
     (take 4 l = ''snan'' \<and> list_all is_digit (drop 4 l)))"

definition parse_decimal :: "string \<Rightarrow> parsed" where
  \<comment> \<open>\<^verbatim>\<open>Decimal(s)\<close> for a string: strip, drop underscores, match the numeric syntax;
      a number that the widest context would have to round, clamp or overflow is refused\<close>
  "parse_decimal s =
     (let (neg, r) = split_sign (filter (\<lambda>c. c \<noteq> CHR ''_'') (strip s));
          ip = takeWhile is_digit r;
          r1 = dropWhile is_digit r;
          (fp, r2) = (case r1 of
                        c # t \<Rightarrow> if c = CHR ''.'' then (takeWhile is_digit t, dropWhile is_digit t)
                                 else ([], r1)
                      | [] \<Rightarrow> ([], r1))
      in if ip \<noteq> [] \<or> fp \<noteq> [] then
           (case parse_exponent r2 of
              Some e \<Rightarrow>
                (let d = Decimal neg (nat_of_digits (ip @ fp)) (e - int (length fp))
                 in if MAX_EMAX < adjusted d \<or> dexp d < MIN_ETINY then Invalid else Finite d)
            | None \<Rightarrow> Invalid)
         else if parse_special r then Special
         else Invalid)"

definition round_up :: "rounding \<Rightarrow> nat \<Rightarrow> nat \<Rightarrow> bool" where
  \<comment> \<open>whether dropping the last \<open>k > 0\<close> digits of \<open>c\<close> increments the kept part\<close>
  "round_up r c k =
     (let q = c div 10 ^ k; rm = c mod 10 ^ k; half = 5 * 10 ^ (k - 1)
      in case r of ROUND_HALF_UP \<Rightarrow> half \<le> rm
                 | ROUND_HALF_EVEN \<Rightarrow> half < rm \<or> (rm = half \<and> odd q))"

definition rescale :: "rounding \<Rightarrow> decimal \<Rightarrow> int \<Rightarrow> decimal" where
  \<comment> \<open>\<^verbatim>\<open>Decimal._rescale\<close>\<close>
  "rescale r d ex =
     (if dcoeff d = 0 then Decimal (dsign d) 0 ex
      else if ex \<le> dexp d then Decimal (dsign d) (dcoeff d * 10 ^ nat (dexp d - ex)) ex
      else let k = nat (ex - dexp d); q = dcoeff d div 10 ^ k
           in Decimal (dsign d) (if round_up r (dcoeff d) k then q + 1 else q) ex)"

definition quantize2 :: "decimal \<Rightarrow> decimal option" where
  \<comment> \<open>\<^verbatim>\<open>d.quantize(Decimal("0.01"), rounding=ROUND_HALF_UP)\<close>; \<open>None\<close> is InvalidOperation\<close>
  "quantize2 d =
     (if dcoeff d = 0 then Some (Decimal (dsign d) 0 (- 2))
      else if Emax < adjusted d then None
      else if int prec < adjusted d + 2 + 1 then None
      else let a = rescale ROUND_HALF_UP d (- 2)
           in if prec < ndigits (dcoeff a) then None else Some a)"

definition dec_negative :: "decimal \<Rightarrow> bool" where
  \<comment> \<open>\<^verbatim>\<open>d < 0\<close>\<close>
  "dec_negative d = (dsign d \<and> dcoeff d \<noteq> 0)"

definition dec_fix :: "decimal \<Rightarrow> decimal" where
  \<comment> \<open>\<^verbatim>\<open>Decimal._fix\<close>: round to the context precision, half even\<close>
  "dec_fix d =
     (if dcoeff d = 0 \<or> ndigits (dcoeff d) \<le> prec then d
      else let k = ndigits (dcoeff d) - prec;
               q = dcoeff d div 10 ^ k;
               q' = (if round_up ROUND_HALF_EVEN (dcoeff d) k then q + 1 else q)
           in if prec < ndigits q' then Decimal (dsign d) (q' div 10) (dexp d + int k + 1)
              else Decimal (dsign d) q' (dexp d + int k))"

definition dec_add :: "decimal \<Rightarrow> decimal \<Rightarrow> decimal" where
  \<comment> \<open>\<^verbatim>\<open>a + b\<close>: the exact sum at the smaller exponent, then \<open>dec_fix\<close>\<close>
  "dec_add a b =
     (let e = min (dexp a) (dexp b);
          x = (if dsign a then - 1 else 1) * int (dcoeff a * 10 ^ nat (dexp a - e));
          y = (if dsign b then - 1 else 1) * int (dcoeff b * 10 ^ nat (dexp b - e));
          s = x + y
      in if s = 0 then Decimal (dcoeff a = 0 \<and> dcoeff b = 0 \<and> dsign a \<and> dsign b) 0 e
         else dec_fix (Decimal (s < 0) (nat \<bar>s\<bar>) e))"

definition format_2f :: "decimal \<Rightarrow> string" where
  \<comment> \<open>\<^verbatim>\<open>f"{d:.2f}"\<close>\<close>
  "format_2f d =
     (let a = rescale ROUND_HALF_EVEN d (- 2);
          ds = show_nat (dcoeff a);
          ds' = replicate (3 - length ds) CHR ''0'' @ ds
      in (if dsign a then ''-'' else '''') @ take (length ds' - 2) ds' @ ''.'' @ drop (length ds' - 2) ds')"

definition dec_str :: "decimal \<Rightarrow> string" where
  \<comment> \<open>\<^verbatim>\<open>str(d)\<close>\<close>
  "dec_str d =
     (let ds = show_nat (dcoeff d);
          leftdigits = dexp d + int (length ds);
          dotplace = (if dexp d \<le> 0 \<and> - 6 < leftdigits then leftdigits else 1);
          body = (if dotplace \<le> 0 then ''0.'' @ replicate (nat (- dotplace)) CHR ''0'' @ ds
                  else if int (length ds) \<le> dotplace
                       then ds @ replicate (nat dotplace - length ds) CHR ''0''
                  else take (nat dotplace) ds @ ''.'' @ drop (nat dotplace) ds);
          ex = (if leftdigits = dotplace then ''''
                else ''E'' @ (if leftdigits - dotplace < 0 then ''-'' else ''+'')
                     @ show_nat (nat \<bar>leftdigits - dotplace\<bar>))
      in (if dsign d then ''-'' else '''') @ body @ ex)"

subsection \<open>Python values and exceptions\<close>

datatype pyval =
    PNone
  | PBool bool
  | PInt int
  | PFloat string
  | PStr string
  | PDec decimal
  | PList "pyval list"
  | PDict "(string \<times> pyval) list"

type_synonym pydict = "(string \<times> pyval) list"

datatype exn =
    PRICATValidationError string
  | KeyError string
  | TypeError
  | AttributeError
  | ValueError
  | OSError

datatype pytype = TStr | TList

definition hex_digit :: "nat \<Rightarrow> char" where
  "hex_digit d = ''0123456789abcdef'' ! d"

definition repr_char :: "char \<Rightarrow> char \<Rightarrow> string" where
  "repr_char q c =
     (if c = q \<or> c = CHR 0x5C then [CHR 0x5C, c]
      else if c = CHR 0x09 then [CHR 0x5C, CHR ''t'']
      else if c = CHR 0x0A then [CHR 0x5C, CHR ''n'']
      else if c = CHR 0x0D then [CHR 0x5C, CHR ''r'']
      else if (of_char c :: nat) < 32 \<or> c = CHR 0x7F
        then [CHR 0x5C, CHR ''x'', hex_digit (of_char c div 16), hex_digit (of_char c mod 16)]
      else [c])"

definition repr_str :: "string \<Rightarrow> string" where
  \<comment> \<open>\<^verbatim>\<open>repr(s)\<close>: double quotes only when \<open>s\<close> has an apostrophe and no double quote\<close>
  "repr_str s =
     (let q = (if apos \<in> set s \<and> CHR 0x22 \<notin> set s then CHR 0x22 else apos)
      in [q] @ concat (map (repr_char q) s) @ [q])"

fun py_repr :: "pyval \<Rightarrow> string" where
  \<comment> \<open>the text of \<^verbatim>\<open>repr(v)\<close>; whether the conversion returns is decided in \<open>py_str\<close>\<close>
  "py_repr PNone = ''None''"
| "py_repr (PBool b) = (if b then ''True'' else ''False'')"
| "py_repr (PInt i) = show_int i"
| "py_repr (PFloat r) = r"
| "py_repr (PStr s) = repr_str s"
| "py_repr (PDec d) = ''Decimal('' @ [apos] @ dec_str d @ [apos] @ '')''"
| "py_repr (PList xs) = ''['' @ join '', '' (map py_repr xs) @ '']''"
| "py_repr (PDict kvs) =
     ''{'' @ join '', '' (map (\<lambda>kv. repr_str (fst kv) @ '': '' @ py_repr (snd kv)) kvs) @ ''}''"

definition int_max_str_digits :: nat where
  \<comment> \<open>\<^verbatim>\<open>sys.get_int_max_str_digits()\<close>\<close>
  "int_max_str_digits = 4300"

fun printable :: "pyval \<Rightarrow> bool" where
  \<comment> \<open>no \<^verbatim>\<open>int\<close> in the value has more digits than the limit of the int-to-str conversion\<close>
  "printable (PInt i) = (ndigits (nat \<bar>i\<bar>) \<le> int_max_str_digits)"
| "printable (PList xs) = list_all printable xs"
| "printable (PDict kvs) = list_all (\<lambda>kv. printable (snd kv)) kvs"
| "printable PNone = True"
| "printable (PBool b) = True"
| "printable (PFloat r) = True"
| "printable (PStr s) = True"
| "printable (PDec d) = True"

definition py_text :: "pyval \<Rightarrow> string" where
  \<comment> \<open>the text \<^verbatim>\<open>str(v)\<close> returns when it returns\<close>
  "py_text v = (case v of PStr s \<Rightarrow> s | PDec d \<Rightarrow> dec_str d | _ \<Rightarrow> py_repr v)"

definition py_str :: "pyval \<Rightarrow> exn + string" where
  \<comment> \<open>\<^verbatim>\<open>str(v)\<close>, which is also what \<^verbatim>\<open>f"{v}"\<close> does: converting an \<^verbatim>\<open>int\<close> beyond the
      digit limit raises \<^verbatim>\<open>ValueError\<close>, also from inside a list or a dict\<close>
  "py_str v = (if printable v then Inr (py_text v) else Inl ValueError)"

definition repr_str_set :: "string list \<Rightarrow> string" where
  \<comment> \<open>\<^verbatim>\<open>repr\<close> of a set of strings, given as the list of its elements in iteration order\<close>
  "repr_str_set xs = (if xs = [] then ''set()'' else ''{'' @ join '', '' (map repr_str xs) @ ''}'')"

definition isinstance :: "pyval \<Rightarrow> pytype \<Rightarrow> bool" where
  "isinstance v t = (case t of TStr \<Rightarrow> (case v of PStr _ \<Rightarrow> True | _ \<Rightarrow> False)
                             | TList \<Rightarrow> (case v of PList _ \<Rightarrow> True | _ \<Rightarrow> False))"

definition type_name :: "pytype \<Rightarrow> string" where
  "type_name t = (case t of TStr \<Rightarrow> ''str'' | TList \<Rightarrow> ''list'')"

definition is_number :: "pyval \<Rightarrow> bool" where
  \<comment> \<open>\<^verbatim>\<open>isinstance(v, (int, float))\<close>; \<^verbatim>\<open>bool\<close> is a subclass of \<^verbatim>\<open>int\<close>\<close>
  "is_number v = (case v of PInt _ \<Rightarrow> True | PBool _ \<Rightarrow> True | PFloat _ \<Rightarrow> True | _ \<Rightarrow> False)"

definition le_zero :: "pyval \<Rightarrow> bool" where
  \<comment> \<open>\<^verbatim>\<open>v <= 0\<close> for a number; a float is not positive when its repr is \<^verbatim>\<open>0.0\<close> or
      starts with a minus sign (\<^verbatim>\<open>nan\<close> compares false)\<close>
  "le_zero v = (case v of PInt i \<Rightarrow> i \<le> 0 | PBool b \<Rightarrow> \<not> b
                        | PFloat r \<Rightarrow> r = ''0.0'' \<or> take 1 r = ''-'' | _ \<Rightarrow> False)"

definition hashable :: "pyval \<Rightarrow> bool" where
  "hashable v = (case v of PList _ \<Rightarrow> False | PDict _ \<Rightarrow> False | _ \<Rightarrow> True)"

definition in_str_set :: "pyval \<Rightarrow> string list \<Rightarrow> exn + bool" where
  \<comment> \<open>\<^verbatim>\<open>v in s\<close> for a set \<open>s\<close> of strings: hashing a list or a dict raises\<close>
  "in_str_set v xs =
     (if \<not> hashable v then Inl TypeError
      else Inr (case v of PStr s \<Rightarrow> s \<in> set xs | _ \<Rightarrow> False))"

definition py_contains :: "pyval \<Rightarrow> string \<Rightarrow> exn + bool" where
  \<comment> \<open>\<^verbatim>\<open>k in v\<close> for a string \<open>k\<close>\<close>
  "py_contains v k = (case v of
       PDict kvs \<Rightarrow> Inr (k \<in> set (map fst kvs))
     | PStr s \<Rightarrow> Inr (contains_str k s)
     | PList xs \<Rightarrow> Inr (PStr k \<in> set xs)
     | _ \<Rightarrow> Inl TypeError)"

definition dict_getitem :: "pydict \<Rightarrow> string \<Rightarrow> exn + pyval" where
  "dict_getitem d k = (case map_of d k of None \<Rightarrow> Inl (KeyError k) | Some v \<Rightarrow> Inr v)"

definition dict_get :: "pydict \<Rightarrow> string \<Rightarrow> pyval \<Rightarrow> pyval" where
  "dict_get d k dflt = (case map_of d k of None \<Rightarrow> dflt | Some v \<Rightarrow> v)"

definition py_getitem :: "pyval \<Rightarrow> string \<Rightarrow> exn + pyval" where
  \<comment> \<open>\<^verbatim>\<open>v[k]\<close> for a string \<open>k\<close>: only a dict takes a string subscript\<close>
  "py_getitem v k = (case v of PDict kvs \<Rightarrow> dict_getitem kvs k | _ \<Rightarrow> Inl TypeError)"

definition py_get :: "pyval \<Rightarrow> string \<Rightarrow> pyval \<Rightarrow> exn + pyval" where
  \<comment> \<open>\<^verbatim>\<open>v.get(k, dflt)\<close>\<close>
  "py_get v k dflt = (case v of PDict kvs \<Rightarrow> Inr (dict_get kvs k dflt) | _ \<Rightarrow> Inl AttributeError)"

definition py_iter :: "pyval \<Rightarrow> exn + pyval list" where
  \<comment> \<open>the elements a \<^verbatim>\<open>for\<close> loop visits: a string yields its characters, a dict its keys\<close>
  "py_iter v = (case v of
       PList xs \<Rightarrow> Inr xs
     | PStr s \<Rightarrow> Inr (map (\<lambda>c. PStr [c]) s)
     | PDict kvs \<Rightarrow> Inr (map (\<lambda>kv. PStr (fst kv)) kvs)
     | _ \<Rightarrow> Inl TypeError)"

definition py_upper :: "pyval \<Rightarrow> exn + string" where
  "py_upper v = (case v of PStr s \<Rightarrow> Inr (upper s) | _ \<Rightarrow> Inl AttributeError)"

fun all_in :: "pyval \<Rightarrow> string list \<Rightarrow> exn + bool" where
  \<comment> \<open>\<^verbatim>\<open>all(k in v for k in ks)\<close>, which stops at the first key that is missing\<close>
  "all_in v [] = Inr True"
| "all_in v (k # ks) = (case py_contains v k of
       Inl e \<Rightarrow> Inl e
     | Inr b \<Rightarrow> if b then all_in v ks else Inr False)"

subsection \<open>Escaping, price normalisation and validation\<close>

definition VALID_CURRENCIES :: "string list" where
  "VALID_CURRENCIES = [''EUR'', ''USD'', ''GBP'', ''JPY'']"

definition VALID_QUALIFIERS :: "string list" where
  "VALID_QUALIFIERS = [''BY'', ''SU'', ''SE'']"

definition escape_edifact :: "pyval \<Rightarrow> exn + string" where
  \<comment> \<open>\<^verbatim>\<open>text.replace("'", "?+")\<close>; a value that is no string has no \<^verbatim>\<open>replace\<close>\<close>
  "escape_edifact text = (case text of
       PStr t \<Rightarrow> Inr (replace_char apos ''?+'' t)
     | _ \<Rightarrow> Inl AttributeError)"

definition validate_price :: "pyval \<Rightarrow> exn + decimal" where
  \<comment> \<open>a \<^verbatim>\<open>ValueError\<close> of \<^verbatim>\<open>str(price)\<close> is not among the exceptions the handler catches\<close>
  "validate_price price =
     (case py_str price of Inl e \<Rightarrow> Inl e | Inr s \<Rightarrow>
      case parse_decimal s of
        Finite d \<Rightarrow>
          (case quantize2 d of
             Some price_decimal \<Rightarrow>
               if dec_negative price_decimal
               then Inl (PRICATValidationError ''Price cannot be negative'')
               else Inr price_decimal
           | None \<Rightarrow> Inl (PRICATValidationError (''Invalid price value: '' @ s)))
      | _ \<Rightarrow> Inl (PRICATValidationError (''Invalid price value: '' @ s)))"

definition required_fields :: "(string \<times> pytype) list" where
  "required_fields =
     [(''message_ref'', TStr), (''doc_code'', TStr), (''doc_number'', TStr),
      (''parties'', TList), (''items'', TList), (''edifact_version'', TStr)]"

fun check_required :: "pydict \<Rightarrow> (string \<times> pytype) list \<Rightarrow> exn + unit" where
  "check_required data [] = Inr ()"
| "check_required data ((field, field_type) # rest) =
     (case map_of data field of
        None \<Rightarrow> Inl (PRICATValidationError (''Missing required field: '' @ field))
      | Some v \<Rightarrow>
          if \<not> isinstance v field_type
          then Inl (PRICATValidationError (''Field '' @ field @ '' must be '' @ type_name field_type))
          else if field_type = TList \<and> v = PList []
          then Inl (PRICATValidationError (''Field '' @ field @ '' cannot be empty''))
          else check_required data rest)"

definition version_ok :: "string \<Rightarrow> bool" where
  \<comment> \<open>\<^verbatim>\<open>re.match(r"^[A-Z]:\d{2}[A-Z]:UN$", v)\<close>; \<^verbatim>\<open>$\<close> also matches before a final newline\<close>
  "version_ok v =
     (let w = (if length v = 9 \<and> last v = CHR 0x0A then butlast v else v)
      in length w = 8 \<and> is_upper (w ! 0) \<and> w ! 1 = CHR '':'' \<and> is_digit (w ! 2) \<and> is_digit (w ! 3)
         \<and> is_upper (w ! 4) \<and> drop 5 w = '':UN'')"

definition validate_party :: "string list \<Rightarrow> pyval \<Rightarrow> exn + unit" where
  "validate_party valid_qualifiers party =
     (case all_in party [''qualifier'', ''id''] of Inl e \<Rightarrow> Inl e | Inr has_keys \<Rightarrow>
      if \<not> has_keys
      then Inl (PRICATValidationError
                  (''Each party must have '' @ [apos] @ ''qualifier'' @ [apos] @ '' and ''
                   @ [apos] @ ''id'' @ [apos]))
      else
      case py_getitem party ''qualifier'' of Inl e \<Rightarrow> Inl e | Inr q \<Rightarrow>
      case in_str_set q valid_qualifiers of Inl e \<Rightarrow> Inl e | Inr known \<Rightarrow>
      if \<not> known
      then (case py_str q of Inl e \<Rightarrow> Inl e | Inr qs \<Rightarrow>
            Inl (PRICATValidationError (''Invalid party qualifier: '' @ qs)))
      else
      case py_getitem party ''id'' of Inl e \<Rightarrow> Inl e | Inr i \<Rightarrow>
      if \<not> isinstance i TStr \<or> i = PStr []
      then Inl (PRICATValidationError ''Party ID must be a non-empty string'')
      else Inr ())"

definition validate_item :: "pyval \<Rightarrow> exn + unit" where
  "validate_item item =
     (case all_in item [''product_code'', ''description'', ''price''] of Inl e \<Rightarrow> Inl e | Inr has_keys \<Rightarrow>
      if \<not> has_keys
      then Inl (PRICATValidationError ''Each item requires product_code, description, and price'')
      else
      case py_getitem item ''product_code'' of Inl e \<Rightarrow> Inl e | Inr pc \<Rightarrow>
      if \<not> isinstance pc TStr \<or> pc = PStr []
      then Inl (PRICATValidationError ''Product code must be a non-empty string'')
      else
      case py_getitem item ''description'' of Inl e \<Rightarrow> Inl e | Inr ds \<Rightarrow>
      if \<not> isinstance ds TStr \<or> ds = PStr []
      then Inl (PRICATValidationError ''Description must be a non-empty string'')
      else
      case py_getitem item ''price'' of Inl e \<Rightarrow> Inl e | Inr p \<Rightarrow>
      case validate_price p of Inl e \<Rightarrow> Inl e | Inr _ \<Rightarrow>
      case py_contains item ''quantity'' of Inl e \<Rightarrow> Inl e | Inr has_quantity \<Rightarrow>
      if has_quantity then
        (case py_getitem item ''quantity'' of Inl e \<Rightarrow> Inl e | Inr q \<Rightarrow>
         if \<not> is_number q \<or> le_zero q
         then Inl (PRICATValidationError ''Quantity must be a positive number'')
         else Inr ())
      else Inr ())"

fun for_each :: "('a \<Rightarrow> exn + unit) \<Rightarrow> 'a list \<Rightarrow> exn + unit" where
  \<comment> \<open>a \<^verbatim>\<open>for\<close> loop whose body may raise: the first exception ends it\<close>
  "for_each f [] = Inr ()"
| "for_each f (x # xs) = (case f x of Inl e \<Rightarrow> Inl e | Inr _ \<Rightarrow> for_each f xs)"

definition validate_data :: "pydict \<Rightarrow> string list \<Rightarrow> string list \<Rightarrow> exn + unit" where
  "validate_data data valid_qualifiers valid_currencies =
     (case check_required data required_fields of Inl e \<Rightarrow> Inl e | Inr _ \<Rightarrow>
      case dict_getitem data ''edifact_version'' of Inl e \<Rightarrow> Inl e | Inr ev \<Rightarrow>
      case py_upper ev of Inl e \<Rightarrow> Inl e | Inr edifact_version \<Rightarrow>
      if \<not> version_ok edifact_version
      then Inl (PRICATValidationError ''Invalid EDIFACT version format'')
      else
      let currency = dict_get data ''currency'' (PStr ''EUR'') in
      case in_str_set currency valid_currencies of Inl e \<Rightarrow> Inl e | Inr known \<Rightarrow>
      if \<not> known
      then (case py_str currency of Inl e \<Rightarrow> Inl e | Inr cs \<Rightarrow>
            Inl (PRICATValidationError
                   (''Invalid currency code: '' @ cs @ ''. Must be one of ''
                    @ repr_str_set valid_currencies)))
      else
      case dict_getitem data ''parties'' of Inl e \<Rightarrow> Inl e | Inr ps \<Rightarrow>
      case py_iter ps of Inl e \<Rightarrow> Inl e | Inr parties \<Rightarrow>
      case for_each (validate_party valid_qualifiers) parties of Inl e \<Rightarrow> Inl e | Inr _ \<Rightarrow>
      case dict_getitem data ''items'' of Inl e \<Rightarrow> Inl e | Inr its \<Rightarrow>
      case py_iter its of Inl e \<Rightarrow> Inl e | Inr items \<Rightarrow>
      for_each validate_item items)"

subsection \<open>Segment generation\<close>

record world =
  today :: string
  timestamp :: string
  path_exists :: "string \<Rightarrow> bool"
  makedirs_ok :: "string \<Rightarrow> bool"
  write_ok :: "string \<Rightarrow> bool"

text \<open>
  The world a call runs in: \<open>today\<close> is \<^verbatim>\<open>datetime.now().strftime('%Y%m%d')\<close>,
  \<open>timestamp\<close> is \<^verbatim>\<open>datetime.now().strftime("%Y%m%d_%H%M%S")\<close>, \<open>path_exists\<close> is
  \<^verbatim>\<open>os.path.exists\<close>, and the last two fields say whether \<^verbatim>\<open>os.makedirs\<close> and
  writing the file succeed (they raise \<^verbatim>\<open>OSError\<close> otherwise).
\<close>

datatype fs_op = MakeDirs string | WriteFile string string

record enc_state =
  segments :: "string list"
  total_amount :: decimal
  item_count :: nat

definition header_segments :: "world \<Rightarrow> pydict \<Rightarrow> exn + string list" where
  \<comment> \<open>the list display of the six leading segments; an f-string looks up and prints its
      fields from left to right\<close>
  "header_segments w data =
     (case dict_getitem data ''message_ref'' of Inl e \<Rightarrow> Inl e | Inr mr \<Rightarrow>
      case py_str mr of Inl e \<Rightarrow> Inl e | Inr message_ref \<Rightarrow>
      case dict_getitem data ''edifact_version'' of Inl e \<Rightarrow> Inl e | Inr ev \<Rightarrow>
      case py_upper ev of Inl e \<Rightarrow> Inl e | Inr edifact_version \<Rightarrow>
      case dict_getitem data ''doc_code'' of Inl e \<Rightarrow> Inl e | Inr dc \<Rightarrow>
      case py_str dc of Inl e \<Rightarrow> Inl e | Inr doc_code \<Rightarrow>
      case dict_getitem data ''doc_number'' of Inl e \<Rightarrow> Inl e | Inr dn \<Rightarrow>
      case py_str dn of Inl e \<Rightarrow> Inl e | Inr doc_number \<Rightarrow>
      case py_str (dict_get data ''currency'' (PStr ''EUR'')) of Inl e \<Rightarrow> Inl e | Inr currency \<Rightarrow>
      Inr [UNA_SEGMENT,
           ''UNH+'' @ message_ref @ ''+PRICAT:'' @ edifact_version @ [apos],
           ''BGM+'' @ doc_code @ ''+'' @ doc_number @ ''+9'' @ [apos],
           ''DTM+137:'' @ today w @ '':102'' @ [apos],
           ''CUX+2:'' @ currency @ '':9'' @ [apos],
           ''RFF+ON:'' @ doc_number @ [apos]])"

definition party_segment :: "pyval \<Rightarrow> exn + string" where
  "party_segment party =
     (case py_getitem party ''qualifier'' of Inl e \<Rightarrow> Inl e | Inr q \<Rightarrow>
      case py_str q of Inl e \<Rightarrow> Inl e | Inr qualifier \<Rightarrow>
      case py_getitem party ''id'' of Inl e \<Rightarrow> Inl e | Inr i \<Rightarrow>
      case py_str i of Inl e \<Rightarrow> Inl e | Inr ident \<Rightarrow>
      Inr (''NAD+'' @ qualifier @ ''+'' @ ident @ ''::91'' @ [apos]))"

fun party_loop :: "pyval list \<Rightarrow> string list \<Rightarrow> exn + string list" where
  "party_loop [] segs = Inr segs"
| "party_loop (party # rest) segs =
     (case party_segment party of Inl e \<Rightarrow> Inl e | Inr s \<Rightarrow> party_loop rest (segs @ [s]))"

definition quantity_segment :: "pyval \<Rightarrow> exn + string list" where
  \<comment> \<open>the \<^verbatim>\<open>if "quantity" in item\<close> block: the segments it appends\<close>
  "quantity_segment item =
     (case py_contains item ''quantity'' of Inl e \<Rightarrow> Inl e | Inr has_quantity \<Rightarrow>
      if has_quantity then
        (case py_get item ''unit'' (PStr ''PCE'') of Inl e \<Rightarrow> Inl e | Inr u \<Rightarrow>
         case py_getitem item ''quantity'' of Inl e \<Rightarrow> Inl e | Inr q \<Rightarrow>
         case py_str q of Inl e \<Rightarrow> Inl e | Inr quantity \<Rightarrow>
         case py_str u of Inl e \<Rightarrow> Inl e | Inr unit \<Rightarrow>
         Inr [''QTY+47:'' @ quantity @ '':'' @ unit @ [apos]])
      else Inr [])"

definition try_item :: "nat \<Rightarrow> pyval \<Rightarrow> enc_state \<Rightarrow> exn option \<times> enc_state" where
  \<comment> \<open>the body of the \<^verbatim>\<open>try\<close>: the exception that left it, if any, and the state reached\<close>
  "try_item index item st =
     (case py_getitem item ''price'' of Inl e \<Rightarrow> (Some e, st) | Inr p \<Rightarrow>
      case validate_price p of Inl e \<Rightarrow> (Some e, st) | Inr price \<Rightarrow>
      case py_getitem item ''description'' of Inl e \<Rightarrow> (Some e, st) | Inr d \<Rightarrow>
      case escape_edifact d of Inl e \<Rightarrow> (Some e, st) | Inr description \<Rightarrow>
      case py_getitem item ''product_code'' of Inl e \<Rightarrow> (Some e, st) | Inr pc \<Rightarrow>
      case py_str pc of Inl e \<Rightarrow> (Some e, st) | Inr product_code \<Rightarrow>
      let st1 = st\<lparr>segments := segments st @
                   [''LIN+'' @ show_nat index @ ''++'' @ product_code @ '':EN'' @ [apos],
                    ''IMD+F++:::'' @ description @ [apos],
                    ''PRI+AAA:'' @ format_2f price @ '':UP'' @ [apos],
                    ''PRI+AAB:'' @ format_2f price @ '':UP'' @ [apos]]\<rparr>
      in
      case quantity_segment item of Inl e \<Rightarrow> (Some e, st1) | Inr q \<Rightarrow>
      (None, st1\<lparr>segments := segments st1 @ q,
                 total_amount := dec_add (total_amount st1) price,
                 item_count := item_count st1 + 1\<rparr>))"

definition caught :: "exn \<Rightarrow> bool" where
  \<comment> \<open>\<^verbatim>\<open>except (KeyError, PRICATValidationError)\<close>; \<^verbatim>\<open>PRICATValidationError\<close> is a subclass
      of \<^verbatim>\<open>ValueError\<close>, so a plain \<^verbatim>\<open>ValueError\<close> is not caught\<close>
  "caught e = (case e of KeyError _ \<Rightarrow> True | PRICATValidationError _ \<Rightarrow> True | _ \<Rightarrow> False)"

definition exn_str :: "exn \<Rightarrow> string" where
  \<comment> \<open>\<^verbatim>\<open>f"{e}"\<close> for the two classes that are caught: a \<^verbatim>\<open>KeyError\<close> prints the repr of its key\<close>
  "exn_str e = (case e of KeyError k \<Rightarrow> repr_str k | PRICATValidationError m \<Rightarrow> m | _ \<Rightarrow> [])"

fun item_loop :: "bool \<Rightarrow> (nat \<times> pyval) list \<Rightarrow> enc_state \<Rightarrow> exn + enc_state" where
  "item_loop strict [] st = Inr st"
| "item_loop strict ((index, item) # rest) st =
     (case try_item index item st of
        (None, st') \<Rightarrow> item_loop strict rest st'
      | (Some e, st') \<Rightarrow>
          if \<not> caught e then Inl e
          else
          case py_get item ''product_code'' (PStr ''unknown'') of Inl e' \<Rightarrow> Inl e' | Inr _ \<Rightarrow>
          if strict
          then Inl (PRICATValidationError (''Invalid item '' @ show_nat index @ '': '' @ exn_str e))
          else item_loop strict rest st')"

definition generate_edi_segments :: "world \<Rightarrow> pydict \<Rightarrow> bool \<Rightarrow> exn + enc_state" where
  "generate_edi_segments w data strict =
     (case header_segments w data of Inl e \<Rightarrow> Inl e | Inr segs \<Rightarrow>
      case dict_getitem data ''parties'' of Inl e \<Rightarrow> Inl e | Inr ps \<Rightarrow>
      case py_iter ps of Inl e \<Rightarrow> Inl e | Inr parties \<Rightarrow>
      case party_loop parties segs of Inl e \<Rightarrow> Inl e | Inr segs' \<Rightarrow>
      case dict_getitem data ''items'' of Inl e \<Rightarrow> Inl e | Inr its \<Rightarrow>
      case py_iter its of Inl e \<Rightarrow> Inl e | Inr items \<Rightarrow>
      item_loop strict (enumerate 1 items)
        \<lparr>segments = segs', total_amount = Decimal False 0 (- 2), item_count = 0\<rparr>)"

subsection \<open>The entry point\<close>

definition rfind :: "char \<Rightarrow> string \<Rightarrow> int" where
  \<comment> \<open>\<^verbatim>\<open>p.rfind(c)\<close>: the last index of \<open>c\<close>, or \<open>-1\<close>\<close>
  "rfind c p = (if c \<in> set p then int (length p) - 1 - int (length (takeWhile (\<lambda>x. x \<noteq> c) (rev p)))
                else - 1)"

definition splitext :: "string \<Rightarrow> string \<times> string" where
  \<comment> \<open>\<^verbatim>\<open>posixpath.splitext\<close>: the extension starts at the last dot of the last path
      component, leading dots of the component apart\<close>
  "splitext p =
     (let sepIndex = rfind CHR ''/'' p; dotIndex = rfind CHR ''.'' p
      in if sepIndex < dotIndex
            \<and> list_ex (\<lambda>c. c \<noteq> CHR ''.'') (take (nat (dotIndex - (sepIndex + 1))) (drop (nat (sepIndex + 1)) p))
         then (take (nat dotIndex) p, drop (nat dotIndex) p)
         else (p, []))"

definition dirname :: "string \<Rightarrow> string" where
  \<comment> \<open>\<^verbatim>\<open>posixpath.dirname\<close>\<close>
  "dirname p =
     (let head = take (nat (rfind CHR ''/'' p + 1)) p
      in if head \<noteq> [] \<and> head \<noteq> replicate (length head) CHR ''/''
         then rev (dropWhile (\<lambda>c. c = CHR ''/'') (rev head))
         else head)"

definition message_segments :: "world \<Rightarrow> pydict \<Rightarrow> exn + string list \<times> enc_state" where
  \<comment> \<open>the first half of the \<^verbatim>\<open>try\<close> block of \<^verbatim>\<open>generate_pricat\<close>: validation, segment
      generation with the default \<^verbatim>\<open>strict=False\<close>, and the two footer segments; the count
      in the trailer is computed before \<^verbatim>\<open>extend\<close> runs\<close>
  "message_segments w data =
     (case validate_data data VALID_QUALIFIERS VALID_CURRENCIES of Inl e \<Rightarrow> Inl e | Inr _ \<Rightarrow>
      case generate_edi_segments w data False of Inl e \<Rightarrow> Inl e | Inr st \<Rightarrow>
      case py_str (dict_get data ''currency'' (PStr ''EUR'')) of Inl e \<Rightarrow> Inl e | Inr currency \<Rightarrow>
      case dict_getitem data ''message_ref'' of Inl e \<Rightarrow> Inl e | Inr mr \<Rightarrow>
      case py_str mr of Inl e \<Rightarrow> Inl e | Inr message_ref \<Rightarrow>
      Inr (segments st @
             [''MOA+86:'' @ format_2f (total_amount st) @ '':'' @ currency @ [apos],
              ''UNT+'' @ show_int (int (length (segments st)) - 1) @ ''+'' @ message_ref @ [apos]],
           st))"

definition save_message :: "world \<Rightarrow> string \<Rightarrow> bool \<Rightarrow> string \<Rightarrow> (exn + unit) \<times> fs_op list" where
  \<comment> \<open>the \<^verbatim>\<open>if filename:\<close> block for a non-empty file name: the outcome and the
      file-system operations performed\<close>
  "save_message w filename overwrite edifact_message =
     (let filename' = (if path_exists w filename \<and> \<not> overwrite
                       then (case splitext filename of (base, ext) \<Rightarrow> base @ ''_'' @ timestamp w @ ext)
                       else filename);
          dir = (if dirname filename' = [] then ''.'' else dirname filename')
      in if \<not> makedirs_ok w dir then (Inl OSError, [])
         else if \<not> write_ok w filename' then (Inl OSError, [MakeDirs dir])
         else (Inr (), [MakeDirs dir, WriteFile filename' edifact_message]))"

definition generate_pricat_try :: "world \<Rightarrow> pydict \<Rightarrow> string option \<Rightarrow> bool \<Rightarrow> (exn + string) \<times> fs_op list" where
  \<comment> \<open>the \<^verbatim>\<open>try\<close> block of \<^verbatim>\<open>generate_pricat\<close>\<close>
  "generate_pricat_try w data filename overwrite =
     (case message_segments w data of Inl e \<Rightarrow> (Inl e, []) | Inr (segs, st) \<Rightarrow>
      let edifact_message = join [CHR 0x0A] segs in
      case filename of
        None \<Rightarrow> (Inr edifact_message, [])
      | Some f \<Rightarrow>
          if f = [] then (Inr edifact_message, [])
          else (case save_message w f overwrite edifact_message of
                  (Inl e, ops) \<Rightarrow> (Inl e, ops)
                | (Inr _, ops) \<Rightarrow> (Inr edifact_message, ops)))"

definition generate_pricat :: "world \<Rightarrow> pydict \<Rightarrow> string option \<Rightarrow> bool \<Rightarrow> string \<times> fs_op list" where
  \<comment> \<open>both \<^verbatim>\<open>except\<close> clauses return the empty string\<close>
  "generate_pricat w data filename overwrite =
     (case generate_pricat_try w data filename overwrite of
        (Inl e, ops) \<Rightarrow> ([], ops)
      | (Inr edifact_message, ops) \<Rightarrow> (edifact_message, ops))"

subsection \<open>Reference notions and sample inputs\<close>





definition w0 :: world where
  "w0 = \<lparr>today = ''20230101'', timestamp = ''20230101_120000'',
         path_exists = (\<lambda>p. False), makedirs_ok = (\<lambda>d. True), write_ok = (\<lambda>p. True)\<rparr>"

definition widget :: pyval where
  "widget = PDict [(''product_code'', PStr ''P1''), (''description'', PStr ''Widget''),
                   (''price'', PStr ''10.005'')]"

definition no_price_item :: pyval where
  "no_price_item = PDict [(''product_code'', PStr ''P2''), (''description'', PStr ''Gadget'')]"

definition bad_price_item :: pyval where
  "bad_price_item = PDict [(''product_code'', PStr ''P2''), (''description'', PStr ''Gadget''),
                           (''price'', PStr ''abc'')]"

definition small_base :: pydict where
  "small_base =
     [(''message_ref'', PStr ''MSG1''), (''doc_code'', PStr ''9''), (''doc_number'', PStr ''D1''),
      (''currency'', PStr ''EUR''),
      (''parties'', PList [PDict [(''qualifier'', PStr ''BY''), (''id'', PStr ''B1'')]])]"

definition small_record :: pydict where
  "small_record = small_base @ [(''edifact_version'', PStr ''D:96A:UN''), (''items'', PList [widget])]"

definition no_version_record :: pydict where
  \<comment> \<open>\<open>small_record\<close> without its \<^verbatim>\<open>edifact_version\<close>\<close>
  "no_version_record = small_base @ [(''items'', PList [widget])]"

definition no_items_record :: pydict where
  \<comment> \<open>\<open>small_record\<close> without its \<^verbatim>\<open>items\<close>\<close>
  "no_items_record = small_base @ [(''edifact_version'', PStr ''D:96A:UN'')]"

definition bad_item_record :: pydict where
  "bad_item_record =
     small_base @ [(''edifact_version'', PStr ''D:96A:UN''), (''items'', PList [widget, bad_price_item])]"





definition quoted_record :: pydict where
  \<comment> \<open>a record, not validated, with an apostrophe in every text field\<close>
  "quoted_record =
     [(''message_ref'', PStr (''M'' @ [apos] @ ''1'')), (''doc_code'', PStr (''9'' @ [apos])),
      (''doc_number'', PStr (''D'' @ [apos] @ ''1'')), (''edifact_version'', PStr ''D:96A:UN''),
      (''parties'', PList [PDict [(''qualifier'', PStr (''B'' @ [apos] @ ''Y'')),
                                  (''id'', PStr (''B'' @ [apos] @ ''1''))]]),
      (''items'', PList [PDict [(''product_code'', PStr (''P'' @ [apos] @ ''1'')),
                                (''description'', PStr (''O'' @ [apos] @ ''Neil'')),
                                (''price'', PStr ''1''),
                                (''quantity'', PStr (''5'' @ [apos])),
                                (''unit'', PStr (''PC'' @ [apos] @ ''E''))]])]"

subsection \<open>Printing values\<close>

lemma py_str_PStr: "py_str (PStr s) = Inr s"
  by (simp add: py_str_def py_text_def)

lemma py_str_PDec: "py_str (PDec d) = Inr (dec_str d)"
  by (simp add: py_str_def py_text_def)

lemma py_text_PStr: "py_text (PStr s) = s"
  by (simp add: py_text_def)

lemma py_str_printable: "printable v \<Longrightarrow> py_str v = Inr (py_text v)"
  by (simp add: py_str_def)

lemma py_str_ok: "py_str v = Inr s \<longleftrightarrow> printable v \<and> s = py_text v"
  by (auto simp: py_str_def)

lemma py_str_err: "py_str v = Inl e \<longleftrightarrow> \<not> printable v \<and> e = ValueError"
  by (auto simp: py_str_def)

lemma printable_lookup: "printable (PDict kvs) \<Longrightarrow> map_of kvs k = Some v \<Longrightarrow> printable v"
proof -
  assume p: "printable (PDict kvs)" and m: "map_of kvs k = Some v"
  from m have "(k, v) \<in> set kvs" by (rule map_of_SomeD)
  with p show ?thesis by (auto simp: list_all_iff)
qed

lemma printable_dict_get:
  "printable (PDict kvs) \<Longrightarrow> printable dflt \<Longrightarrow> printable (dict_get kvs k dflt)"
proof (cases "map_of kvs k")
  case None
  assume "printable dflt"
  with None show ?thesis by (simp add: dict_get_def)
next
  case (Some v)
  assume "printable (PDict kvs)"
  from printable_lookup [OF this Some] Some show ?thesis by (simp add: dict_get_def)
qed



lemma small_int_printable: "\<bar>i\<bar> < 10 \<Longrightarrow> printable (PInt i)"
proof -
  assume "\<bar>i\<bar> < 10"
  then have "nat \<bar>i\<bar> < 10" by simp
  then have "show_nat (nat \<bar>i\<bar>) = [digit_char (nat \<bar>i\<bar>)]" by (subst show_nat.simps) simp
  then show ?thesis by (simp add: ndigits_def int_max_str_digits_def)
qed

subsection \<open>Decimal digit strings\<close>

lemma is_digit_digit_char: "d < 10 \<Longrightarrow> is_digit (digit_char d)"
proof -
  assume "d < 10"
  then have "d \<in> {0,1,2,3,4,5,6,7,8,9}" by auto
  then show ?thesis by (auto simp: is_digit_def digit_char_def)
qed

lemma digit_val_digit_char: "d < 10 \<Longrightarrow> digit_val (digit_char d) = d"
proof -
  assume "d < 10"
  then have "d \<in> {0,1,2,3,4,5,6,7,8,9}" by auto
  then show ?thesis by (auto simp: digit_val_def digit_char_def)
qed

lemma show_nat_digits: "list_all is_digit (show_nat n)"
  by (induction n rule: show_nat.induct) (subst show_nat.simps, simp add: is_digit_digit_char)

lemma show_nat_nonempty: "show_nat n \<noteq> []"
  by (subst show_nat.simps) simp

lemma nat_of_digits_snoc: "nat_of_digits (xs @ [c]) = 10 * nat_of_digits xs + digit_val c"
  by (simp add: nat_of_digits_def)

lemma nat_of_digits_show_nat: "nat_of_digits (show_nat n) = n"
proof (induction n rule: show_nat.induct)
  case (1 n)
  show ?case
  proof (cases "n < 10")
    case True
    then show ?thesis
      by (subst show_nat.simps) (simp add: nat_of_digits_def digit_val_digit_char)
  next
    case False
    with 1 have "nat_of_digits (show_nat (n div 10)) = n div 10" by simp
    with False show ?thesis
      by (subst show_nat.simps) (simp add: nat_of_digits_snoc digit_val_digit_char)
  qed
qed

lemma nat_of_digits_append:
  "nat_of_digits (xs @ ys) = nat_of_digits xs * 10 ^ length ys + nat_of_digits ys"
proof (induction ys rule: rev_induct)
  case Nil
  then show ?case by (simp add: nat_of_digits_def)
next
  case (snoc y ys)
  have "nat_of_digits (xs @ ys @ [y]) = 10 * nat_of_digits (xs @ ys) + digit_val y"
    using nat_of_digits_snoc [of "xs @ ys" y] by simp
  with snoc show ?case by (simp add: nat_of_digits_snoc algebra_simps)
qed

lemma nat_of_digits_zeros: "nat_of_digits (replicate k CHR ''0'') = 0"
proof (induction k)
  case 0
  then show ?case by (simp add: nat_of_digits_def)
next
  case (Suc k)
  have "nat_of_digits ([CHR ''0''] @ replicate k CHR ''0'') =
        nat_of_digits [CHR ''0''] * 10 ^ k + nat_of_digits (replicate k CHR ''0'')"
    using nat_of_digits_append [of "[CHR ''0'']" "replicate k CHR ''0''"] by simp
  moreover have "nat_of_digits [CHR ''0''] = 0" by (simp add: nat_of_digits_def digit_val_def)
  ultimately show ?case using Suc by simp
qed

lemma nat_of_digits_take_drop: "nat_of_digits (take k ds @ drop k ds) = nat_of_digits ds"
  by simp

subsection \<open>Parsing what \<^verbatim>\<open>str\<close> prints\<close>

lemma is_digit_not_special:
  "is_digit c \<Longrightarrow> \<not> is_space c \<and> c \<noteq> CHR ''_'' \<and> c \<noteq> CHR ''-'' \<and> c \<noteq> CHR ''+'' \<and> c \<noteq> CHR ''.''"
  by (auto simp: is_digit_def is_space_def)

lemma dropWhile_none: "list_all (\<lambda>c. \<not> P c) s \<Longrightarrow> dropWhile P s = s"
  by (cases s) auto

lemma strip_id: "list_all (\<lambda>c. \<not> is_space c) s \<Longrightarrow> strip s = s"
proof -
  assume a: "list_all (\<lambda>c. \<not> is_space c) s"
  then have "list_all (\<lambda>c. \<not> is_space c) (rev s)" by (simp add: list_all_iff)
  with a show ?thesis by (simp add: strip_def dropWhile_none)
qed

lemma parse_plain:
  assumes ip: "list_all is_digit ip" and fp: "list_all is_digit fp" and ne: "ip \<noteq> []"
    and hi: "int (ndigits (nat_of_digits (ip @ fp))) - int (length fp) - 1 \<le> MAX_EMAX"
    and lo: "MIN_ETINY \<le> - int (length fp)"
  shows "parse_decimal ((if s then ''-'' else []) @ ip @ CHR ''.'' # fp)
         = Finite (Decimal s (nat_of_digits (ip @ fp)) (- int (length fp)))"
proof -
  let ?r = "ip @ CHR ''.'' # fp"
  let ?str = "(if s then ''-'' else []) @ ?r"
  have sp: "list_all (\<lambda>c. \<not> is_space c) ip" "list_all (\<lambda>c. \<not> is_space c) fp"
    by (rule list.pred_mono_strong [OF ip], simp add: is_digit_not_special,
        rule list.pred_mono_strong [OF fp], simp add: is_digit_not_special)
  have us: "list_all (\<lambda>c. c \<noteq> CHR ''_'') ip" "list_all (\<lambda>c. c \<noteq> CHR ''_'') fp"
    by (rule list.pred_mono_strong [OF ip], simp add: is_digit_not_special,
        rule list.pred_mono_strong [OF fp], simp add: is_digit_not_special)
  have nosp: "list_all (\<lambda>c. \<not> is_space c) ?str"
    using sp by (simp add: is_space_def)
  have "list_all (\<lambda>c. c \<noteq> CHR ''_'') ?str"
    using us by simp
  then have nous: "filter (\<lambda>c. c \<noteq> CHR ''_'') ?str = ?str"
    by (simp only: filter_id_conv list_all_iff)
  obtain h t where ht: "ip = h # t" using ne by (cases ip) auto
  with ip have h: "is_digit h" by simp
  have ss: "split_sign ?str = (s, ?r)"
    using h ht by (auto simp: split_sign_def is_digit_not_special)
  have tw: "takeWhile is_digit ?r = ip"
    using ip by (simp add: takeWhile_append2 list_all_iff is_digit_def)
  have dw: "dropWhile is_digit ?r = CHR ''.'' # fp"
    using ip by (simp add: dropWhile_append2 list_all_iff is_digit_def)
  have tw2: "takeWhile is_digit fp = fp"
    using fp by (simp add: takeWhile_eq_all_conv list_all_iff)
  have dw2: "dropWhile is_digit fp = []"
    using fp by (simp add: list_all_iff)
  show ?thesis
    unfolding parse_decimal_def strip_id [OF nosp] nous ss
    using hi lo by (simp add: tw dw tw2 dw2 ne parse_exponent_def adjusted_def Let_def)
qed

lemma dec_str_parse:
  assumes "dexp d = - 2" and "ndigits (dcoeff d) \<le> prec"
  shows "parse_decimal (dec_str d) = Finite d"
proof -
  obtain s c where d: "d = Decimal s c (- 2)" using assms(1) by (cases d) auto
  from assms(2) d have nd: "int (ndigits c) - 2 - 1 \<le> MAX_EMAX"
    by (simp add: prec_def MAX_EMAX_def)
  have lo: "MIN_ETINY \<le> - 2" by (simp add: MIN_ETINY_def)
  let ?ds = "show_nat c"
  let ?L = "length ?ds"
  have dig: "list_all is_digit ?ds" by (rule show_nat_digits)
  have L1: "1 \<le> ?L" using show_nat_nonempty [of c] by (cases ?ds) auto
  show ?thesis
  proof (cases "?L \<le> 2")
    case True
    let ?fp = "replicate (2 - ?L) CHR ''0'' @ ?ds"
    have str: "dec_str d = (if s then ''-'' else []) @ ''0'' @ CHR ''.'' # ?fp"
      using True L1 by (simp add: d dec_str_def Let_def nat_diff_distrib)
    have z: "is_digit CHR ''0''" by (simp add: is_digit_def)
    have "list_all is_digit (replicate (2 - ?L) CHR ''0'')"
      using z by (induction "2 - ?L") (simp_all add: list_all_iff)
    then have fpd: "list_all is_digit ?fp" using dig by simp
    have len: "length ?fp = 2" using True by simp
    have "nat_of_digits ?fp = c"
      by (simp add: nat_of_digits_append nat_of_digits_zeros nat_of_digits_show_nat)
    moreover have "nat_of_digits [CHR ''0''] = 0"
      by (simp add: nat_of_digits_def digit_val_def)
    ultimately have val: "nat_of_digits (''0'' @ ?fp) = c"
      using nat_of_digits_append [of "''0''" ?fp] by simp
    have "parse_decimal (dec_str d) = Finite (Decimal s (nat_of_digits (''0'' @ ?fp)) (- int (length ?fp)))"
      unfolding str
    proof (rule parse_plain [OF _ fpd])
      show "list_all is_digit ''0''" by (simp add: z)
      show "''0'' \<noteq> []" by simp
      show "int (ndigits (nat_of_digits (''0'' @ ?fp))) - int (length ?fp) - 1 \<le> MAX_EMAX"
        using nd unfolding val len by simp
      show "MIN_ETINY \<le> - int (length ?fp)" using lo unfolding len by simp
    qed
    then show ?thesis using val len d by simp
  next
    case False
    let ?ip = "take (?L - 2) ?ds"
    let ?fp = "drop (?L - 2) ?ds"
    have str: "dec_str d = (if s then ''-'' else []) @ ?ip @ CHR ''.'' # ?fp"
      using False by (simp add: d dec_str_def Let_def nat_diff_distrib)
    have ipd: "list_all is_digit ?ip" and fpd: "list_all is_digit ?fp"
      using dig by (auto simp: list_all_iff dest: in_set_takeD in_set_dropD)
    have ne: "?ip \<noteq> []" using False by (simp add: show_nat_nonempty)
    have len: "length ?fp = 2" using False by simp
    have val: "nat_of_digits (?ip @ ?fp) = c" by (simp add: nat_of_digits_show_nat)
    have "parse_decimal (dec_str d) = Finite (Decimal s (nat_of_digits (?ip @ ?fp)) (- int (length ?fp)))"
      unfolding str
    proof (rule parse_plain [OF ipd fpd ne])
      show "int (ndigits (nat_of_digits (?ip @ ?fp))) - int (length ?fp) - 1 \<le> MAX_EMAX"
        using nd unfolding val len by simp
      show "MIN_ETINY \<le> - int (length ?fp)" using lo unfolding len by simp
    qed
    then show ?thesis using val len d by simp
  qed
qed

subsection \<open>Quantizing to two fraction digits\<close>

lemma quantize2_shape:
  assumes "quantize2 x = Some d"
  shows "dexp d = - 2 \<and> ndigits (dcoeff d) \<le> prec \<and> dsign d = dsign x"
proof (cases "dcoeff x = 0")
  case True
  have "show_nat 0 = [digit_char 0]" by (subst show_nat.simps) simp
  then have "ndigits 0 = 1" by (simp add: ndigits_def)
  with True assms show ?thesis by (auto simp: quantize2_def prec_def)
next
  case False
  with assms show ?thesis
    by (auto simp: quantize2_def rescale_def Let_def split: if_splits)
qed

lemma quantize2_fixed:
  assumes "dexp d = - 2" and "ndigits (dcoeff d) \<le> prec"
  shows "quantize2 d = Some d"
proof -
  obtain s c where d: "d = Decimal s c (- 2)" using assms(1) by (cases d) auto
  show ?thesis using assms(2)
    by (auto simp: d quantize2_def rescale_def adjusted_def prec_def Emax_def Let_def)
qed

subsection \<open>Rounding half up on the coefficient\<close>


subsection \<open>What the validator accepts\<close>

lemma for_each_ok: "for_each f xs = Inr () \<longleftrightarrow> (\<forall>x\<in>set xs. f x = Inr ())"
  by (induction xs) (auto split: sum.splits)

lemma for_each_err: "for_each f xs = Inl e \<Longrightarrow> \<exists>x\<in>set xs. f x = Inl e"
  by (induction xs) (auto split: sum.splits)

lemma check_required_err:
  "check_required data fs = Inl e \<Longrightarrow> \<exists>m. e = PRICATValidationError m"
  by (induction data fs rule: check_required.induct) (auto split: option.splits if_splits)

lemma check_required_missing:
  "map_of data f = None \<Longrightarrow> f \<in> fst ` set fs \<Longrightarrow> check_required data fs \<noteq> Inr ()"
  by (induction data fs rule: check_required.induct) (auto split: option.splits if_splits)

lemma check_required_present:
  "check_required data fs = Inr () \<Longrightarrow> (f, t) \<in> set fs \<Longrightarrow>
     \<exists>v. map_of data f = Some v \<and> isinstance v t \<and> (t = TList \<longrightarrow> v \<noteq> PList [])"
  by (induction data fs rule: check_required.induct) (auto split: option.splits if_splits)

lemma isinstance_str: "isinstance v TStr \<longleftrightarrow> (\<exists>s. v = PStr s)"
  by (cases v) (simp_all add: isinstance_def)

lemma isinstance_list: "isinstance v TList \<longleftrightarrow> (\<exists>xs. v = PList xs)"
  by (cases v) (simp_all add: isinstance_def)

lemma py_getitem_ok: "py_getitem v k = Inr x \<longleftrightarrow> (\<exists>kvs. v = PDict kvs \<and> map_of kvs k = Some x)"
  by (cases v) (auto simp: py_getitem_def dict_getitem_def split: option.splits)

lemma validate_data_missing:
  assumes "map_of data f = None" and "f \<in> fst ` set required_fields"
  shows "\<exists>m. validate_data data vq vc = Inl (PRICATValidationError m)"
proof -
  from check_required_missing [OF assms] obtain e where e: "check_required data required_fields = Inl e"
    by (cases "check_required data required_fields") auto
  from check_required_err [OF e] obtain m where "e = PRICATValidationError m" by auto
  with e show ?thesis by (simp add: validate_data_def)
qed

lemma validate_party_ok:
  assumes "validate_party vq party = Inr ()"
  shows "\<exists>kvs q i. party = PDict kvs \<and> map_of kvs ''qualifier'' = Some (PStr q) \<and> q \<in> set vq
           \<and> map_of kvs ''id'' = Some (PStr i) \<and> i \<noteq> []"
proof -
  from assms obtain qv where q: "py_getitem party ''qualifier'' = Inr qv"
    by (auto simp: validate_party_def split: sum.splits if_splits)
  then obtain kvs where kvs: "party = PDict kvs" "map_of kvs ''qualifier'' = Some qv"
    by (auto simp: py_getitem_ok)
  from assms q obtain iv where
    known: "in_str_set qv vq = Inr True" and i: "py_getitem party ''id'' = Inr iv"
    and iv: "isinstance iv TStr" "iv \<noteq> PStr []"
    by (auto simp: validate_party_def split: sum.splits if_splits)
  from known obtain qs where "qv = PStr qs" "qs \<in> set vq"
    by (cases qv) (auto simp: in_str_set_def hashable_def split: if_splits)
  moreover from iv obtain s where "iv = PStr s" "s \<noteq> []" by (auto simp: isinstance_str)
  ultimately show ?thesis using kvs i by (auto simp: py_getitem_ok)
qed

lemma validate_item_ok:
  assumes "validate_item item = Inr ()"
  shows "\<exists>kvs pc ds p d. item = PDict kvs \<and> map_of kvs ''product_code'' = Some (PStr pc)
           \<and> map_of kvs ''description'' = Some (PStr ds) \<and> map_of kvs ''price'' = Some p
           \<and> validate_price p = Inr d"
proof -
  from assms obtain pcv where pc: "py_getitem item ''product_code'' = Inr pcv"
    and pcs: "isinstance pcv TStr"
    by (auto simp: validate_item_def split: sum.splits if_splits)
  from assms pc obtain dsv where ds: "py_getitem item ''description'' = Inr dsv"
    and dss: "isinstance dsv TStr"
    by (auto simp: validate_item_def split: sum.splits if_splits)
  from assms pc ds obtain p where p: "py_getitem item ''price'' = Inr p"
    by (auto simp: validate_item_def split: sum.splits if_splits)
  from assms pc ds p obtain d where d: "validate_price p = Inr d"
    by (auto simp: validate_item_def split: sum.splits if_splits)
  from pc pcs ds dss p d show ?thesis
    by (auto simp: py_getitem_ok isinstance_str)
qed

lemma validate_data_ok:
  assumes "validate_data data vq vc = Inr ()"
  shows "\<exists>m dc dn v ps its.
           map_of data ''message_ref'' = Some (PStr m) \<and> map_of data ''doc_code'' = Some (PStr dc)
         \<and> map_of data ''doc_number'' = Some (PStr dn) \<and> map_of data ''edifact_version'' = Some (PStr v)
         \<and> version_ok (upper v)
         \<and> map_of data ''parties'' = Some (PList ps) \<and> map_of data ''items'' = Some (PList its)
         \<and> (\<forall>p\<in>set ps. validate_party vq p = Inr ()) \<and> (\<forall>i\<in>set its. validate_item i = Inr ())"
proof -
  from assms have cr: "check_required data required_fields = Inr ()"
    by (auto simp: validate_data_def split: sum.splits)
  have f1: "\<exists>s. map_of data ''message_ref'' = Some (PStr s)"
    using check_required_present [OF cr, of "''message_ref''" TStr]
    by (auto simp: required_fields_def isinstance_str)
  have f2: "\<exists>s. map_of data ''doc_code'' = Some (PStr s)"
    using check_required_present [OF cr, of "''doc_code''" TStr]
    by (auto simp: required_fields_def isinstance_str)
  have f3: "\<exists>s. map_of data ''doc_number'' = Some (PStr s)"
    using check_required_present [OF cr, of "''doc_number''" TStr]
    by (auto simp: required_fields_def isinstance_str)
  have f4: "\<exists>s. map_of data ''edifact_version'' = Some (PStr s)"
    using check_required_present [OF cr, of "''edifact_version''" TStr]
    by (auto simp: required_fields_def isinstance_str)
  have f5: "\<exists>xs. map_of data ''parties'' = Some (PList xs)"
    using check_required_present [OF cr, of "''parties''" TList]
    by (auto simp: required_fields_def isinstance_list)
  have f6: "\<exists>xs. map_of data ''items'' = Some (PList xs)"
    using check_required_present [OF cr, of "''items''" TList]
    by (auto simp: required_fields_def isinstance_list)
  from f1 f2 f3 f4 f5 f6 obtain m dc dn v ps its where
    m: "map_of data ''message_ref'' = Some (PStr m)" and dc: "map_of data ''doc_code'' = Some (PStr dc)"
    and dn: "map_of data ''doc_number'' = Some (PStr dn)" and v: "map_of data ''edifact_version'' = Some (PStr v)"
    and ps: "map_of data ''parties'' = Some (PList ps)" and its: "map_of data ''items'' = Some (PList its)"
    by blast
  from assms cr v ps its have
    "version_ok (upper v) \<and> for_each (validate_party vq) ps = Inr () \<and> for_each validate_item its = Inr ()"
    by (auto simp: validate_data_def dict_getitem_def py_upper_def py_iter_def Let_def
             split: sum.splits if_splits)
  with m dc dn v ps its show ?thesis by (auto simp: for_each_ok)
qed

lemma party_loop_ok:
  assumes "\<forall>p\<in>set ps. \<exists>s. party_segment p = Inr s"
  shows "\<exists>add. party_loop ps segs = Inr (segs @ add) \<and> length add = length ps"
  using assms
proof (induction ps arbitrary: segs)
  case Nil
  then show ?case by simp
next
  case (Cons p ps)
  then obtain s where s: "party_segment p = Inr s" by auto
  from Cons obtain add where "party_loop ps (segs @ [s]) = Inr ((segs @ [s]) @ add)" "length add = length ps"
    by fastforce
  with s show ?case by (intro exI [of _ "s # add"]) simp
qed

lemma party_segment_ok:
  assumes "map_of kvs ''qualifier'' = Some q" and "py_str q = Inr qs"
    and "map_of kvs ''id'' = Some i" and "py_str i = Inr ids"
  shows "party_segment (PDict kvs) = Inr (''NAD+'' @ qs @ ''+'' @ ids @ ''::91'' @ [apos])"
  using assms by (simp add: party_segment_def py_getitem_def dict_getitem_def)

lemma quantity_segment_dict:
  "quantity_segment (PDict kvs) =
     (case map_of kvs ''quantity'' of
        None \<Rightarrow> Inr []
      | Some q \<Rightarrow>
          (case py_str q of Inl e \<Rightarrow> Inl e | Inr qs \<Rightarrow>
           case py_str (dict_get kvs ''unit'' (PStr ''PCE'')) of Inl e \<Rightarrow> Inl e | Inr us \<Rightarrow>
           Inr [''QTY+47:'' @ qs @ '':'' @ us @ [apos]]))"
proof (cases "map_of kvs ''quantity''")
  case None
  then have "''quantity'' \<notin> set (map fst kvs)" by (simp add: map_of_eq_None_iff)
  with None show ?thesis by (simp add: quantity_segment_def py_contains_def)
next
  case (Some q)
  then have "''quantity'' \<in> set (map fst kvs)"
    using map_of_eq_None_iff [of kvs "''quantity''"] by auto
  with Some show ?thesis
    by (simp add: quantity_segment_def py_contains_def py_get_def py_getitem_def dict_getitem_def)
qed

lemma quantity_segment_err:
  "quantity_segment (PDict kvs) = Inl e \<Longrightarrow> e = ValueError"
  by (auto simp: quantity_segment_dict py_str_err split: option.splits sum.splits)

lemma quantity_segment_printable:
  assumes "printable (PDict kvs)"
  shows "\<exists>q. quantity_segment (PDict kvs) = Inr q"
proof (cases "map_of kvs ''quantity''")
  case None
  then show ?thesis by (simp add: quantity_segment_dict)
next
  case (Some q)
  from printable_lookup [OF assms Some] have "py_str q = Inr (py_text q)"
    by (rule py_str_printable)
  moreover have "printable (dict_get kvs ''unit'' (PStr ''PCE''))"
    using assms by (rule printable_dict_get) simp
  then have "py_str (dict_get kvs ''unit'' (PStr ''PCE''))
             = Inr (py_text (dict_get kvs ''unit'' (PStr ''PCE'')))"
    by (rule py_str_printable)
  ultimately show ?thesis using Some by (simp add: quantity_segment_dict)
qed

lemma try_item_ok:
  assumes "map_of kvs ''product_code'' = Some pc" and "py_str pc = Inr pcs"
    and "map_of kvs ''description'' = Some (PStr ds)"
    and "map_of kvs ''price'' = Some p" and "validate_price p = Inr d"
  shows "try_item idx (PDict kvs) st =
           (case quantity_segment (PDict kvs) of
              Inl e \<Rightarrow>
                (Some e, st\<lparr>segments := segments st @
                            [''LIN+'' @ show_nat idx @ ''++'' @ pcs @ '':EN'' @ [apos],
                             ''IMD+F++:::'' @ replace_char apos ''?+'' ds @ [apos],
                             ''PRI+AAA:'' @ format_2f d @ '':UP'' @ [apos],
                             ''PRI+AAB:'' @ format_2f d @ '':UP'' @ [apos]]\<rparr>)
            | Inr q \<Rightarrow>
                (None, st\<lparr>segments := segments st @
                            [''LIN+'' @ show_nat idx @ ''++'' @ pcs @ '':EN'' @ [apos],
                             ''IMD+F++:::'' @ replace_char apos ''?+'' ds @ [apos],
                             ''PRI+AAA:'' @ format_2f d @ '':UP'' @ [apos],
                             ''PRI+AAB:'' @ format_2f d @ '':UP'' @ [apos]] @ q,
                          total_amount := dec_add (total_amount st) d,
                          item_count := item_count st + 1\<rparr>))"
  using assms
  by (simp add: try_item_def py_getitem_def dict_getitem_def escape_edifact_def Let_def
           split: sum.splits)

subsection \<open>Price normalisation and escaping\<close>

lemmas price_eval =
  validate_price_def py_str_PStr parse_decimal_def MAX_EMAX_def MIN_ETINY_def strip_def is_space_def split_sign_def is_digit_def
  parse_exponent_def nat_of_digits_def digit_val_def quantize2_def adjusted_def ndigits_def
  show_nat.simps digit_char_def prec_def Emax_def rescale_def round_up_def dec_negative_def Let_def

lemma rescale_same: "rescale r (Decimal s c e) e = Decimal s c e"
  by (simp add: rescale_def)

lemma show_nat_digit: "n < 10 \<Longrightarrow> show_nat n = [digit_char n]"
  by (subst show_nat.simps) simp

lemma show_nat_step: "10 \<le> n \<Longrightarrow> show_nat n = show_nat (n div 10) @ [digit_char (n mod 10)]"
  by (subst show_nat.simps) simp

lemmas show_nat_eval = show_nat_digit show_nat_step digit_char_def

lemma price_1005: "validate_price (PStr ''1.005'') = Inr (Decimal False 101 (- 2))"
  by (simp add: price_eval)


lemma price_10005: "validate_price (PStr ''10.005'') = Inr (Decimal False 1001 (- 2))"
  by (simp add: price_eval)


lemma price_abc:
  "validate_price (PStr ''abc'') = Inl (PRICATValidationError ''Invalid price value: abc'')"
  by (simp add: price_eval parse_special_def lower_def to_lower_def is_upper_def)



text \<open>
  C5. For every price that \<open>validate_price\<close> accepts (in particular every accepted price
  \<open>p \<ge> 0\<close>), applying \<open>validate_price\<close> to its own result returns that result again: the
  result is printed by \<^verbatim>\<open>str\<close>, parsed back to the same decimal, and quantizing a decimal
  that already has two fraction digits changes nothing.
\<close>

theorem validate_price_idempotent:
  assumes "validate_price p = Inr d"
  shows "validate_price (PDec d) = Inr d"
proof -
  from assms obtain x where q: "quantize2 x = Some d" and nn: "\<not> dec_negative d"
    by (auto simp: validate_price_def split: sum.splits parsed.splits option.splits if_splits)
  from quantize2_shape [OF q] have e: "dexp d = - 2" and n: "ndigits (dcoeff d) \<le> prec" by auto
  show ?thesis
    using nn by (simp add: validate_price_def py_str_PDec dec_str_parse [OF e n] quantize2_fixed [OF e n])
qed

theorem validate_price_idempotent_witness:
  "validate_price (PStr ''1.005'') = Inr (Decimal False 101 (- 2))
   \<and> validate_price (PDec (Decimal False 101 (- 2))) = Inr (Decimal False 101 (- 2))"
  using price_1005 validate_price_idempotent [OF price_1005] by simp








lemma escape_edifact_chars:
  "escape_edifact (PStr t) = Inr (concat (map (\<lambda>c. if c = apos then ''?+'' else [c]) t))"
  by (simp add: escape_edifact_def replace_char_def)

text \<open>
  C2. The claim asks for every apostrophe to become the release character followed by the
  apostrophe. The code writes the release character followed by a plus sign instead:
  \<^verbatim>\<open>O'Neil\<close> becomes \<^verbatim>\<open>O?+Neil\<close>, not \<^verbatim>\<open>O?'Neil\<close>.
\<close>

theorem escape_edifact_writes_plus:
  "escape_edifact (PStr (''O'' @ [apos] @ ''Neil'')) = Inr ''O?+Neil''
   \<and> escape_edifact (PStr (''O'' @ [apos] @ ''Neil'')) \<noteq> Inr (''O?'' @ [apos] @ ''Neil'')"
  by (simp add: escape_edifact_def replace_char_def apos_def)

subsection \<open>The encoder on validated records\<close>


lemma try_item_valid:
  assumes "validate_item item = Inr ()"
  shows "(\<exists>add d. try_item idx item st =
            (None, st\<lparr>segments := segments st @ add,
                      total_amount := dec_add (total_amount st) d,
                      item_count := item_count st + 1\<rparr>))
         \<or> (\<not> printable item \<and> (\<exists>st1. try_item idx item st = (Some ValueError, st1)))"
proof -
  from validate_item_ok [OF assms] obtain kvs pc ds p d where
    i: "item = PDict kvs" and pc: "map_of kvs ''product_code'' = Some (PStr pc)"
    and ds: "map_of kvs ''description'' = Some (PStr ds)" and p: "map_of kvs ''price'' = Some p"
    and d: "validate_price p = Inr d"
    by blast
  note t = try_item_ok [OF pc py_str_PStr ds p d, of idx st]
  show ?thesis
  proof (cases "quantity_segment (PDict kvs)")
    case (Inl e)
    from quantity_segment_err [OF Inl] have e: "e = ValueError" .
    from Inl quantity_segment_printable [of kvs] have "\<not> printable item" using i by auto
    with t Inl e i show ?thesis by simp
  next
    case (Inr q)
    with t i show ?thesis by auto
  qed
qed

lemma item_loop_valid:
  assumes "\<forall>x\<in>set xs. validate_item (snd x) = Inr ()"
  shows "(\<exists>st' add. item_loop strict xs st = Inr st' \<and> item_count st' = item_count st + length xs
            \<and> segments st' = segments st @ add)
         \<or> (item_loop strict xs st = Inl ValueError \<and> \<not> list_all printable (map snd xs))"
  using assms
proof (induction xs arbitrary: st)
  case Nil
  then show ?case by simp
next
  case (Cons x xs)
  obtain idx item where x: "x = (idx, item)" by (cases x)
  with Cons.prems have "validate_item item = Inr ()" by simp
  from try_item_valid [OF this, of idx st]
  consider (ok) add d where
      "try_item idx item st =
          (None, st\<lparr>segments := segments st @ add, total_amount := dec_add (total_amount st) d,
                    item_count := item_count st + 1\<rparr>)"
    | (err) st1 where "\<not> printable item" "try_item idx item st = (Some ValueError, st1)"
    by blast
  then show ?case
  proof cases
    case ok
    let ?st1 = "st\<lparr>segments := segments st @ add, total_amount := dec_add (total_amount st) d,
                   item_count := item_count st + 1\<rparr>"
    from Cons.IH [of ?st1] Cons.prems
    consider (a) st' add' where "item_loop strict xs ?st1 = Inr st'"
        "item_count st' = item_count ?st1 + length xs" "segments st' = segments ?st1 @ add'"
      | (b) "item_loop strict xs ?st1 = Inl ValueError" "\<not> list_all printable (map snd xs)"
      by auto
    then show ?thesis
    proof cases
      case a
      with ok x show ?thesis by simp
    next
      case b
      with ok x show ?thesis by simp
    qed
  next
    case err
    with x show ?thesis by (simp add: caught_def)
  qed
qed

lemma item_loop_valid_strict:
  assumes "\<forall>x\<in>set xs. validate_item (snd x) = Inr ()"
  shows "item_loop True xs st = item_loop False xs st"
  using assms
proof (induction xs arbitrary: st)
  case Nil
  then show ?case by simp
next
  case (Cons x xs)
  obtain idx item where x: "x = (idx, item)" by (cases x)
  with Cons.prems have "validate_item item = Inr ()" by simp
  from try_item_valid [OF this, of idx st]
  consider (ok) st1 where "try_item idx item st = (None, st1)"
    | (err) st1 where "try_item idx item st = (Some ValueError, st1)"
    by blast
  then show ?case
  proof cases
    case ok
    with Cons x show ?thesis by simp
  next
    case err
    with x show ?thesis by (simp add: caught_def)
  qed
qed

lemma set_enumerate_snd: "x \<in> set (enumerate n xs) \<Longrightarrow> snd x \<in> set xs"
  by (cases x) (auto simp: in_set_enumerate_eq)

lemma map_snd_enumerate: "map snd (enumerate n xs) = xs"
  by (induction xs arbitrary: n) simp_all

lemma header_segments_ok:
  assumes "map_of data ''message_ref'' = Some m" and "py_str m = Inr ms"
    and "map_of data ''edifact_version'' = Some (PStr v)"
    and "map_of data ''doc_code'' = Some dc" and "py_str dc = Inr dcs"
    and "map_of data ''doc_number'' = Some dn" and "py_str dn = Inr dns"
    and "py_str (dict_get data ''currency'' (PStr ''EUR'')) = Inr cs"
  shows "header_segments w data =
           Inr [UNA_SEGMENT,
                ''UNH+'' @ ms @ ''+PRICAT:'' @ upper v @ [apos],
                ''BGM+'' @ dcs @ ''+'' @ dns @ ''+9'' @ [apos],
                ''DTM+137:'' @ today w @ '':102'' @ [apos],
                ''CUX+2:'' @ cs @ '':9'' @ [apos],
                ''RFF+ON:'' @ dns @ [apos]]"
  using assms by (simp add: header_segments_def dict_getitem_def py_upper_def)

lemma validate_data_currency:
  assumes "validate_data data vq vc = Inr ()"
  shows "\<exists>c. dict_get data ''currency'' (PStr ''EUR'') = PStr c \<and> c \<in> set vc"
proof -
  from assms have "in_str_set (dict_get data ''currency'' (PStr ''EUR'')) vc = Inr True"
    by (auto simp: validate_data_def Let_def split: sum.splits if_splits)
  then show ?thesis
    by (cases "dict_get data ''currency'' (PStr ''EUR'')")
       (auto simp: in_str_set_def hashable_def split: if_splits)
qed

lemma generate_valid:
  assumes "validate_data data vq vc = Inr ()"
  shows "\<exists>m v c its rest.
           map_of data ''message_ref'' = Some (PStr m) \<and> map_of data ''edifact_version'' = Some (PStr v)
         \<and> version_ok (upper v) \<and> dict_get data ''currency'' (PStr ''EUR'') = PStr c
         \<and> map_of data ''items'' = Some (PList its)
         \<and> header_segments w data
             = Inr (UNA_SEGMENT # (''UNH+'' @ m @ ''+PRICAT:'' @ upper v @ [apos]) # rest)
         \<and> generate_edi_segments w data True = generate_edi_segments w data False
         \<and> ((\<exists>st more. generate_edi_segments w data False = Inr st \<and> item_count st = length its
                \<and> segments st
                    = UNA_SEGMENT # (''UNH+'' @ m @ ''+PRICAT:'' @ upper v @ [apos]) # rest @ more)
             \<or> (generate_edi_segments w data False = Inl ValueError \<and> \<not> list_all printable its))"
proof -
  from validate_data_ok [OF assms] obtain m dc dn v ps its where
    m: "map_of data ''message_ref'' = Some (PStr m)" and dc: "map_of data ''doc_code'' = Some (PStr dc)"
    and dn: "map_of data ''doc_number'' = Some (PStr dn)" and v: "map_of data ''edifact_version'' = Some (PStr v)"
    and vo: "version_ok (upper v)"
    and ps: "map_of data ''parties'' = Some (PList ps)" and its: "map_of data ''items'' = Some (PList its)"
    and pv: "\<forall>p\<in>set ps. validate_party vq p = Inr ()" and iv: "\<forall>i\<in>set its. validate_item i = Inr ()"
    by blast
  from validate_data_currency [OF assms] obtain c where
    c: "dict_get data ''currency'' (PStr ''EUR'') = PStr c"
    by blast
  have pc: "py_str (dict_get data ''currency'' (PStr ''EUR'')) = Inr c"
    by (simp add: c py_str_PStr)
  let ?rest = "[''BGM+'' @ dc @ ''+'' @ dn @ ''+9'' @ [apos],
                ''DTM+137:'' @ today w @ '':102'' @ [apos],
                ''CUX+2:'' @ c @ '':9'' @ [apos],
                ''RFF+ON:'' @ dn @ [apos]]"
  let ?hs = "UNA_SEGMENT # (''UNH+'' @ m @ ''+PRICAT:'' @ upper v @ [apos]) # ?rest"
  have hs: "header_segments w data = Inr ?hs"
    using header_segments_ok [OF m py_str_PStr v dc py_str_PStr dn py_str_PStr pc, of w] by simp
  have "\<forall>p\<in>set ps. \<exists>s. party_segment p = Inr s"
  proof
    fix p assume "p \<in> set ps"
    with pv have "validate_party vq p = Inr ()" by simp
    from validate_party_ok [OF this] obtain kvs q i where
      "p = PDict kvs" "map_of kvs ''qualifier'' = Some (PStr q)" "map_of kvs ''id'' = Some (PStr i)"
      by blast
    then show "\<exists>s. party_segment p = Inr s"
      using party_segment_ok [of kvs "PStr q" q "PStr i" i] by (simp add: py_str_PStr)
  qed
  from party_loop_ok [OF this, of ?hs] obtain add where add: "party_loop ps ?hs = Inr (?hs @ add)"
    by blast
  let ?st0 = "\<lparr>segments = ?hs @ add, total_amount = Decimal False 0 (- 2), item_count = 0\<rparr>"
  have en: "\<forall>x\<in>set (enumerate 1 its). validate_item (snd x) = Inr ()"
    using iv set_enumerate_snd by blast
  have g: "generate_edi_segments w data strict = item_loop strict (enumerate 1 its) ?st0" for strict
    by (simp only: generate_edi_segments_def hs sum.case dict_getitem_def ps its option.case
                   py_iter_def pyval.case add)
  have same: "generate_edi_segments w data True = generate_edi_segments w data False"
    using g item_loop_valid_strict [OF en, of ?st0] by simp
  let ?unh = "''UNH+'' @ m @ ''+PRICAT:'' @ upper v @ [apos]"
  have alt: "(\<exists>st more. generate_edi_segments w data False = Inr st \<and> item_count st = length its
           \<and> segments st = UNA_SEGMENT # ?unh # ?rest @ more)
        \<or> (generate_edi_segments w data False = Inl ValueError \<and> \<not> list_all printable its)"
  proof (cases "item_loop False (enumerate 1 its) ?st0")
    case (Inr st')
    with item_loop_valid [OF en, of False ?st0] obtain add' where
      cnt: "item_count st' = item_count ?st0 + length (enumerate 1 its)"
      and seg: "segments st' = segments ?st0 @ add'"
      by auto
    have a: "generate_edi_segments w data False = Inr st'" by (simp only: g Inr)
    have b: "item_count st' = length its" using cnt by simp
    have c: "segments st' = UNA_SEGMENT # ?unh # ?rest @ (add @ add')" using seg by simp
    from a b c show ?thesis by blast
  next
    case (Inl e)
    with item_loop_valid [OF en, of False ?st0] have
      e: "e = ValueError" and np: "\<not> list_all printable (map snd (enumerate 1 its))"
      by auto
    have "generate_edi_segments w data False = Inl ValueError" using Inl e by (simp only: g)
    moreover have "\<not> list_all printable its" using np by (simp add: map_snd_enumerate)
    ultimately show ?thesis by blast
  qed
  from m v vo c its hs same alt
  have "map_of data ''message_ref'' = Some (PStr m) \<and> map_of data ''edifact_version'' = Some (PStr v)
         \<and> version_ok (upper v) \<and> dict_get data ''currency'' (PStr ''EUR'') = PStr c
         \<and> map_of data ''items'' = Some (PList its)
         \<and> header_segments w data = Inr (UNA_SEGMENT # ?unh # ?rest)
         \<and> generate_edi_segments w data True = generate_edi_segments w data False
         \<and> ((\<exists>st more. generate_edi_segments w data False = Inr st \<and> item_count st = length its
                \<and> segments st = UNA_SEGMENT # ?unh # ?rest @ more)
             \<or> (generate_edi_segments w data False = Inl ValueError \<and> \<not> list_all printable its))"
    by (intro conjI)
  then show ?thesis by - ((rule exI)+, assumption)
qed

subsection \<open>Failures that leave the entry point\<close>

lemma message_segments_invalid:
  "validate_data data VALID_QUALIFIERS VALID_CURRENCIES = Inl e \<Longrightarrow> message_segments w data = Inl e"
  by (simp add: message_segments_def)

lemma generate_pricat_invalid:
  "validate_data data VALID_QUALIFIERS VALID_CURRENCIES = Inl e \<Longrightarrow>
   generate_pricat w data filename overwrite = ([], [])"
  by (simp add: generate_pricat_def generate_pricat_try_def message_segments_invalid)


subsection \<open>The sample records\<close>

lemmas validate_eval =
  validate_data_def required_fields_def isinstance_def dict_getitem_def dict_get_def py_upper_def
  upper_def to_upper_def version_ok_def is_upper_def is_digit_def in_str_set_def hashable_def
  VALID_QUALIFIERS_def VALID_CURRENCIES_def py_iter_def validate_party_def
  py_contains_def py_getitem_def

lemma widget_valid: "validate_item widget = Inr ()"
  by (simp add: widget_def validate_item_def py_contains_def py_getitem_def dict_getitem_def
                 isinstance_def price_10005)

lemma small_record_valid: "validate_data small_record VALID_QUALIFIERS VALID_CURRENCIES = Inr ()"
  by (simp add: small_record_def small_base_def validate_eval widget_valid)

lemma no_version_record_invalid:
  "validate_data no_version_record VALID_QUALIFIERS VALID_CURRENCIES
   = Inl (PRICATValidationError ''Missing required field: edifact_version'')"
  by (simp add: no_version_record_def small_base_def validate_data_def required_fields_def isinstance_def)

lemma no_items_record_invalid:
  "validate_data no_items_record VALID_QUALIFIERS VALID_CURRENCIES
   = Inl (PRICATValidationError ''Missing required field: items'')"
  by (simp add: no_items_record_def small_base_def validate_data_def required_fields_def isinstance_def)


lemma bad_price_item_invalid:
  "validate_item bad_price_item = Inl (PRICATValidationError ''Invalid price value: abc'')"
  by (simp add: bad_price_item_def validate_item_def py_contains_def py_getitem_def dict_getitem_def
                 isinstance_def price_abc)

lemma bad_item_record_invalid:
  "validate_data bad_item_record VALID_QUALIFIERS VALID_CURRENCIES
   = Inl (PRICATValidationError ''Invalid price value: abc'')"
  by (simp add: bad_item_record_def small_base_def validate_eval widget_valid bad_price_item_invalid)




subsection \<open>Shape of the encoder's result\<close>

lemma party_loop_result:
  assumes "party_loop ps segs = Inr segs'"
  shows "\<exists>add. segs' = segs @ add \<and> length add = length ps
           \<and> (\<forall>j<length ps. party_segment (ps ! j) = Inr (add ! j))"
  using assms
proof (induction ps arbitrary: segs)
  case Nil
  then show ?case by simp
next
  case (Cons p ps)
  then obtain s where s: "party_segment p = Inr s" and r: "party_loop ps (segs @ [s]) = Inr segs'"
    by (auto split: sum.splits)
  from Cons.IH [OF r] obtain add where
    add: "segs' = (segs @ [s]) @ add" "length add = length ps"
    "\<forall>j<length ps. party_segment (ps ! j) = Inr (add ! j)"
    by blast
  have "\<forall>j<length (p # ps). party_segment ((p # ps) ! j) = Inr ((s # add) ! j)"
  proof (intro allI impI)
    fix j assume "j < length (p # ps)"
    then show "party_segment ((p # ps) ! j) = Inr ((s # add) ! j)"
      using s add(3) by (cases j) auto
  qed
  with add show ?case by (intro exI [of _ "s # add"]) simp
qed

lemma try_item_grows: "\<exists>add. segments (snd (try_item idx item st)) = segments st @ add"
  by (auto simp: try_item_def Let_def split: sum.splits)

lemma item_loop_grows:
  "item_loop strict xs st = Inr st' \<Longrightarrow> \<exists>add. segments st' = segments st @ add"
proof (induction strict xs st rule: item_loop.induct)
  case (1 strict st)
  then show ?case by simp
next
  case (2 strict index item rest st)
  obtain r st1 where t: "try_item index item st = (r, st1)" by (cases "try_item index item st")
  from try_item_grows [of index item st] t obtain a where a: "segments st1 = segments st @ a" by auto
  from 2 t have "item_loop strict rest st1 = Inr st'"
    by (auto split: option.splits if_splits sum.splits)
  moreover from this 2 t have "\<exists>add. segments st' = segments st1 @ add"
    by (auto split: option.splits if_splits sum.splits)
  ultimately show ?case using a by auto
qed

lemma item_loop_emits:
  assumes "item_loop strict xs st = Inr st'" and "(idx, PDict kvs) \<in> set xs"
    and "map_of kvs ''product_code'' = Some pc" and "py_str pc = Inr pcs"
    and "map_of kvs ''description'' = Some (PStr ds)"
    and "map_of kvs ''price'' = Some p" and "validate_price p = Inr d"
  shows "\<exists>q. quantity_segment (PDict kvs) = Inr q
           \<and> set ([''LIN+'' @ show_nat idx @ ''++'' @ pcs @ '':EN'' @ [apos],
                    ''IMD+F++:::'' @ replace_char apos ''?+'' ds @ [apos],
                    ''PRI+AAA:'' @ format_2f d @ '':UP'' @ [apos],
                    ''PRI+AAB:'' @ format_2f d @ '':UP'' @ [apos]] @ q)
               \<subseteq> set (segments st')"
  using assms(1,2)
proof (induction strict xs st rule: item_loop.induct)
  case (1 strict st)
  then show ?case by simp
next
  case (2 strict index item rest st)
  obtain r st1 where t: "try_item index item st = (r, st1)" by (cases "try_item index item st")
  from 2(3) t have rest: "item_loop strict rest st1 = Inr st'"
    by (auto split: option.splits if_splits sum.splits)
  show ?case
  proof (cases "(idx, PDict kvs) = (index, item)")
    case True
    note ok = try_item_ok [OF assms(3-7), of idx st]
    show ?thesis
    proof (cases "quantity_segment (PDict kvs)")
      case (Inl e)
      from quantity_segment_err [OF Inl] have "e = ValueError" .
      with ok Inl True 2(3) show ?thesis by (simp add: caught_def)
    next
      case (Inr q)
      with ok True t have
        "segments st1 = segments st @
           [''LIN+'' @ show_nat idx @ ''++'' @ pcs @ '':EN'' @ [apos],
            ''IMD+F++:::'' @ replace_char apos ''?+'' ds @ [apos],
            ''PRI+AAA:'' @ format_2f d @ '':UP'' @ [apos],
            ''PRI+AAB:'' @ format_2f d @ '':UP'' @ [apos]] @ q"
        by auto
      moreover from item_loop_grows [OF rest] obtain a where "segments st' = segments st1 @ a" by blast
      ultimately have
        "set ([''LIN+'' @ show_nat idx @ ''++'' @ pcs @ '':EN'' @ [apos],
               ''IMD+F++:::'' @ replace_char apos ''?+'' ds @ [apos],
               ''PRI+AAA:'' @ format_2f d @ '':UP'' @ [apos],
               ''PRI+AAB:'' @ format_2f d @ '':UP'' @ [apos]] @ q)
         \<subseteq> set (segments st')"
        by (simp only: set_append) blast
      with Inr show ?thesis by blast
    qed
  next
    case False
    with 2(4) have mem: "(idx, PDict kvs) \<in> set rest" by auto
    from 2 t rest mem show ?thesis
      by (auto split: option.splits if_splits sum.splits)
  qed
qed

lemma header_segments_result:
  assumes "header_segments w data = Inr hs"
  shows "\<exists>m v dc dn. map_of data ''message_ref'' = Some m \<and> map_of data ''edifact_version'' = Some (PStr v)
           \<and> map_of data ''doc_code'' = Some dc \<and> map_of data ''doc_number'' = Some dn
           \<and> hs = [UNA_SEGMENT,
                ''UNH+'' @ py_text m @ ''+PRICAT:'' @ upper v @ [apos],
                ''BGM+'' @ py_text dc @ ''+'' @ py_text dn @ ''+9'' @ [apos],
                ''DTM+137:'' @ today w @ '':102'' @ [apos],
                ''CUX+2:'' @ py_text (dict_get data ''currency'' (PStr ''EUR'')) @ '':9'' @ [apos],
                ''RFF+ON:'' @ py_text dn @ [apos]]"
proof -
  from assms obtain m where m: "map_of data ''message_ref'' = Some m"
    by (auto simp: header_segments_def dict_getitem_def split: sum.splits option.splits)
  from assms m have pm: "py_str m = Inr (py_text m)"
    by (auto simp: header_segments_def dict_getitem_def py_str_def split: sum.splits if_splits)
  from assms m pm obtain ev where ev: "map_of data ''edifact_version'' = Some ev"
    by (auto simp: header_segments_def dict_getitem_def split: sum.splits option.splits)
  from assms m pm ev obtain v where v: "ev = PStr v"
    by (cases ev) (auto simp: header_segments_def dict_getitem_def py_upper_def split: sum.splits)
  from assms m pm ev v obtain dc where dc: "map_of data ''doc_code'' = Some dc"
    by (auto simp: header_segments_def dict_getitem_def py_upper_def split: sum.splits option.splits)
  from assms m pm ev v dc have pdc: "py_str dc = Inr (py_text dc)"
    by (auto simp: header_segments_def dict_getitem_def py_upper_def py_str_def
             split: sum.splits if_splits)
  from assms m pm ev v dc pdc obtain dn where dn: "map_of data ''doc_number'' = Some dn"
    by (auto simp: header_segments_def dict_getitem_def py_upper_def split: sum.splits option.splits)
  from assms m pm ev v dc pdc dn have pdn: "py_str dn = Inr (py_text dn)"
    by (auto simp: header_segments_def dict_getitem_def py_upper_def py_str_def
             split: sum.splits if_splits)
  from assms m pm ev v dc pdc dn pdn have
    pc: "py_str (dict_get data ''currency'' (PStr ''EUR''))
         = Inr (py_text (dict_get data ''currency'' (PStr ''EUR'')))"
    by (auto simp: header_segments_def dict_getitem_def py_upper_def py_str_def
             split: sum.splits if_splits)
  from header_segments_ok [OF m pm ev [unfolded v] dc pdc dn pdn pc, of w] assms m ev v dc dn
  show ?thesis by simp
qed

lemma generate_result:
  assumes "generate_edi_segments w data strict = Inr st"
  shows "\<exists>hs pv ps nads iv its.
           header_segments w data = Inr hs \<and> map_of data ''parties'' = Some pv \<and> py_iter pv = Inr ps
         \<and> length nads = length ps \<and> (\<forall>j<length ps. party_segment (ps ! j) = Inr (nads ! j))
         \<and> map_of data ''items'' = Some iv \<and> py_iter iv = Inr its
         \<and> item_loop strict (enumerate 1 its)
              \<lparr>segments = hs @ nads, total_amount = Decimal False 0 (- 2), item_count = 0\<rparr> = Inr st"
proof -
  from assms obtain hs pv ps segs' iv its where
    hs: "header_segments w data = Inr hs" and pv: "map_of data ''parties'' = Some pv"
    and ps: "py_iter pv = Inr ps" and pl: "party_loop ps hs = Inr segs'"
    and iv: "map_of data ''items'' = Some iv" and its: "py_iter iv = Inr its"
    and il: "item_loop strict (enumerate 1 its)
              \<lparr>segments = segs', total_amount = Decimal False 0 (- 2), item_count = 0\<rparr> = Inr st"
    by (auto simp: generate_edi_segments_def dict_getitem_def split: sum.splits option.splits)
  from party_loop_result [OF pl] obtain nads where
    "segs' = hs @ nads" "length nads = length ps" "\<forall>j<length ps. party_segment (ps ! j) = Inr (nads ! j)"
    by blast
  with hs pv ps iv its il show ?thesis by blast
qed

lemma generate_unfold:
  assumes "header_segments w data = Inr hs" and "map_of data ''parties'' = Some (PList ps)"
    and "party_loop ps hs = Inr segs'" and "map_of data ''items'' = Some (PList its)"
  shows "generate_edi_segments w data strict =
           item_loop strict (enumerate 1 its)
             \<lparr>segments = segs', total_amount = Decimal False 0 (- 2), item_count = 0\<rparr>"
  by (simp only: generate_edi_segments_def assms sum.case dict_getitem_def option.case
                 py_iter_def pyval.case)

subsection \<open>The message of the small record\<close>

lemmas string_eval = py_str_PStr py_text_PStr upper_def to_upper_def dict_get_def UNA_SEGMENT_def SEG_SEPARATOR_def

lemma format_2f_cents:
  "format_2f (Decimal s c (- 2)) =
     (if s then ''-'' else []) @
     take (length (replicate (3 - length (show_nat c)) CHR ''0'' @ show_nat c) - 2)
          (replicate (3 - length (show_nat c)) CHR ''0'' @ show_nat c) @ ''.'' @
     drop (length (replicate (3 - length (show_nat c)) CHR ''0'' @ show_nat c) - 2)
          (replicate (3 - length (show_nat c)) CHR ''0'' @ show_nat c)"
  by (simp add: format_2f_def rescale_same Let_def)

lemma dec_fix_small: "ndigits (dcoeff d) \<le> prec \<Longrightarrow> dec_fix d = d"
  by (simp add: dec_fix_def)

lemma dec_add_zero_cents:
  "0 < c \<Longrightarrow> ndigits c \<le> prec \<Longrightarrow>
   dec_add (Decimal False 0 (- 2)) (Decimal False c (- 2)) = Decimal False c (- 2)"
  by (simp add: dec_add_def dec_fix_small Let_def)

lemma show_nat_1001: "show_nat 1001 = ''1001''"
  by (simp add: show_nat_eval)

lemma show_nat_one: "show_nat (Suc 0) = ''1''"
  by (simp add: show_nat_eval)

lemma format_1001: "format_2f (Decimal False 1001 (- 2)) = ''10.01''"
  by (simp add: format_2f_cents show_nat_1001)

lemma small_header:
  "header_segments w0 small_record =
     Inr [''UNA:+.? '' @ [apos], ''UNH+MSG1+PRICAT:D:96A:UN'' @ [apos], ''BGM+9+D1+9'' @ [apos],
          ''DTM+137:20230101:102'' @ [apos], ''CUX+2:EUR:9'' @ [apos], ''RFF+ON:D1'' @ [apos]]"
  using header_segments_ok [of small_record "PStr ''MSG1''" "''MSG1''" "''D:96A:UN''"
                               "PStr ''9''" "''9''" "PStr ''D1''" "''D1''" "''EUR''" w0]
  by (simp add: small_record_def small_base_def string_eval w0_def)

lemma widget_encoded:
  "try_item (Suc 0) widget st =
     (None, st\<lparr>segments := segments st @
                  [''LIN+1++P1:EN'' @ [apos], ''IMD+F++:::Widget'' @ [apos],
                   ''PRI+AAA:10.01:UP'' @ [apos], ''PRI+AAB:10.01:UP'' @ [apos]],
               total_amount := dec_add (total_amount st) (Decimal False 1001 (- 2)),
               item_count := item_count st + 1\<rparr>)"
proof -
  have e: "replace_char apos ''?+'' ''Widget'' = ''Widget''" by (simp add: replace_char_def apos_def)
  have q: "quantity_segment (PDict [(''product_code'', PStr ''P1''), (''description'', PStr ''Widget''),
                                    (''price'', PStr ''10.005'')]) = Inr []"
    by (simp add: quantity_segment_dict)
  show ?thesis
    using try_item_ok [of "[(''product_code'', PStr ''P1''), (''description'', PStr ''Widget''),
                            (''price'', PStr ''10.005'')]"
                          "PStr ''P1''" "''P1''" "''Widget''" "PStr ''10.005''"
                          "Decimal False 1001 (- 2)" "Suc 0" st]
    by (simp add: widget_def price_10005 format_1001 e q show_nat_one py_str_PStr)
qed

lemma small_generate:
  "generate_edi_segments w0 small_record strict =
     Inr \<lparr>segments =
            [''UNA:+.? '' @ [apos], ''UNH+MSG1+PRICAT:D:96A:UN'' @ [apos], ''BGM+9+D1+9'' @ [apos],
             ''DTM+137:20230101:102'' @ [apos], ''CUX+2:EUR:9'' @ [apos], ''RFF+ON:D1'' @ [apos],
             ''NAD+BY+B1::91'' @ [apos],
             ''LIN+1++P1:EN'' @ [apos], ''IMD+F++:::Widget'' @ [apos],
             ''PRI+AAA:10.01:UP'' @ [apos], ''PRI+AAB:10.01:UP'' @ [apos]],
          total_amount = Decimal False 1001 (- 2), item_count = 1\<rparr>"
proof -
  let ?hs = "[''UNA:+.? '' @ [apos], ''UNH+MSG1+PRICAT:D:96A:UN'' @ [apos], ''BGM+9+D1+9'' @ [apos],
          ''DTM+137:20230101:102'' @ [apos], ''CUX+2:EUR:9'' @ [apos], ''RFF+ON:D1'' @ [apos]]"
  have pl: "party_loop [PDict [(''qualifier'', PStr ''BY''), (''id'', PStr ''B1'')]] ?hs
            = Inr (?hs @ [''NAD+BY+B1::91'' @ [apos]])"
    using party_segment_ok [of "[(''qualifier'', PStr ''BY''), (''id'', PStr ''B1'')]"
                               "PStr ''BY''" "''BY''" "PStr ''B1''" "''B1''"]
    by (simp add: py_str_PStr)
  have ps: "map_of small_record ''parties'' = Some (PList [PDict [(''qualifier'', PStr ''BY''), (''id'', PStr ''B1'')]])"
    and its: "map_of small_record ''items'' = Some (PList [widget])"
    by (simp_all add: small_record_def small_base_def)
  have t: "dec_add (Decimal False 0 (- 2)) (Decimal False 1001 (- 2)) = Decimal False 1001 (- 2)"
    by (simp add: dec_add_zero_cents ndigits_def show_nat_1001 prec_def)
  show ?thesis
    unfolding generate_unfold [OF small_header ps pl its]
    by (simp add: enumerate_simps widget_encoded t)
qed

lemma small_message:
  "message_segments w0 small_record =
     Inr ([''UNA:+.? '' @ [apos], ''UNH+MSG1+PRICAT:D:96A:UN'' @ [apos], ''BGM+9+D1+9'' @ [apos],
           ''DTM+137:20230101:102'' @ [apos], ''CUX+2:EUR:9'' @ [apos], ''RFF+ON:D1'' @ [apos],
           ''NAD+BY+B1::91'' @ [apos],
           ''LIN+1++P1:EN'' @ [apos], ''IMD+F++:::Widget'' @ [apos],
           ''PRI+AAA:10.01:UP'' @ [apos], ''PRI+AAB:10.01:UP'' @ [apos],
           ''MOA+86:10.01:EUR'' @ [apos], ''UNT+10+MSG1'' @ [apos]],
          \<lparr>segments =
            [''UNA:+.? '' @ [apos], ''UNH+MSG1+PRICAT:D:96A:UN'' @ [apos], ''BGM+9+D1+9'' @ [apos],
             ''DTM+137:20230101:102'' @ [apos], ''CUX+2:EUR:9'' @ [apos], ''RFF+ON:D1'' @ [apos],
             ''NAD+BY+B1::91'' @ [apos],
             ''LIN+1++P1:EN'' @ [apos], ''IMD+F++:::Widget'' @ [apos],
             ''PRI+AAA:10.01:UP'' @ [apos], ''PRI+AAB:10.01:UP'' @ [apos]],
          total_amount = Decimal False 1001 (- 2), item_count = 1\<rparr>)"
proof -
  have n: "show_int 10 = ''10''" by (simp add: show_int_def show_nat_eval)
  have l: "dict_get small_record ''currency'' (PStr ''EUR'') = PStr ''EUR''"
    "dict_getitem small_record ''message_ref'' = Inr (PStr ''MSG1'')"
    by (simp_all add: small_record_def small_base_def dict_get_def dict_getitem_def)
  show ?thesis
    unfolding message_segments_def small_record_valid small_generate l
    by (simp add: format_1001 n py_str_PStr)
qed

subsection \<open>Trailer count and required fields\<close>

lemma trailer_counts_before_footer:
  assumes "message_segments w data = Inr (segs, st)"
  shows "\<exists>moa mref. segs = segments st @
            [moa, ''UNT+'' @ show_int (int (length segs) - 3) @ ''+'' @ mref @ [apos]]"
proof -
  from assms obtain cur mref where
    "segs = segments st @
       [''MOA+86:'' @ format_2f (total_amount st) @ '':'' @ cur @ [apos],
        ''UNT+'' @ show_int (int (length (segments st)) - 1) @ ''+'' @ mref @ [apos]]"
    by (auto simp: message_segments_def split: sum.splits)
  moreover from this have "int (length segs) - 3 = int (length (segments st)) - 1" by simp
  ultimately show ?thesis by metis
qed

text \<open>
  C1. The claim asks for the count in the UNT trailer to be the number of emitted segments
  without the UNA segment. The code computes \<^verbatim>\<open>len(segments) - 1\<close> while it builds the
  list that holds the MOA and UNT segments, before \<^verbatim>\<open>extend\<close> appends them, so the two
  footer segments are not counted: the record below yields 13 segments, 12 without UNA,
  and the trailer says 10.
\<close>

theorem trailer_count_misses_footer:
  "map_sum id fst (message_segments w0 small_record) =
     Inr [''UNA:+.? '' @ [apos], ''UNH+MSG1+PRICAT:D:96A:UN'' @ [apos], ''BGM+9+D1+9'' @ [apos],
          ''DTM+137:20230101:102'' @ [apos], ''CUX+2:EUR:9'' @ [apos], ''RFF+ON:D1'' @ [apos],
          ''NAD+BY+B1::91'' @ [apos],
          ''LIN+1++P1:EN'' @ [apos], ''IMD+F++:::Widget'' @ [apos],
          ''PRI+AAA:10.01:UP'' @ [apos], ''PRI+AAB:10.01:UP'' @ [apos],
          ''MOA+86:10.01:EUR'' @ [apos], ''UNT+10+MSG1'' @ [apos]]
   \<and> map_sum id (\<lambda>r. (last (fst r), length (fst r) - 1)) (message_segments w0 small_record)
       = Inr (''UNT+10+MSG1'' @ [apos], 12)"
  by (simp add: small_message)

text \<open>
  C6. A record that lacks one of \<^verbatim>\<open>message_ref\<close>, \<^verbatim>\<open>doc_code\<close>, \<^verbatim>\<open>doc_number\<close>,
  \<^verbatim>\<open>parties\<close>, \<^verbatim>\<open>items\<close> is rejected by \<open>validate_data\<close> with a validation failure;
  \<open>generate_pricat\<close> then returns the empty string and performs no file-system operation.
\<close>

theorem missing_field_gives_no_output:
  assumes "f \<in> {''message_ref'', ''doc_code'', ''doc_number'', ''parties'', ''items''}"
    and "map_of data f = None"
  shows "(\<exists>m. validate_data data VALID_QUALIFIERS VALID_CURRENCIES = Inl (PRICATValidationError m))
         \<and> generate_pricat w data filename overwrite = ([], [])"
proof -
  from assms(1) have "f \<in> fst ` set required_fields" by (auto simp: required_fields_def)
  from validate_data_missing [OF assms(2) this] obtain m where
    "validate_data data VALID_QUALIFIERS VALID_CURRENCIES = Inl (PRICATValidationError m)"
    by blast
  then show ?thesis using generate_pricat_invalid by blast
qed

theorem missing_field_gives_no_output_witness:
  "''items'' \<in> {''message_ref'', ''doc_code'', ''doc_number'', ''parties'', ''items''}
   \<and> map_of no_items_record ''items'' = None
   \<and> generate_pricat w0 no_items_record (Some ''pricat.edi'') False = ([], [])"
proof -
  have a: "''items'' \<in> {''message_ref'', ''doc_code'', ''doc_number'', ''parties'', ''items''}"
    by simp
  have b: "map_of no_items_record ''items'' = None"
    by (simp add: no_items_record_def small_base_def)
  from missing_field_gives_no_output [OF a b] a b show ?thesis by blast
qed

lemma generate_pricat_saves:
  assumes "message_segments w data = Inr (segs, st)" and "f \<noteq> []" and "\<not> path_exists w f"
    and "makedirs_ok w (if dirname f = [] then ''.'' else dirname f)" and "write_ok w f"
  shows "generate_pricat w data (Some f) overwrite =
           (join [CHR 0x0A] segs,
            [MakeDirs (if dirname f = [] then ''.'' else dirname f), WriteFile f (join [CHR 0x0A] segs)])"
  using assms by (simp add: generate_pricat_def generate_pricat_try_def save_message_def Let_def)

lemma small_record_saved:
  "snd (generate_pricat w0 small_record (Some ''pricat.edi'') False) =
     [MakeDirs ''.'', WriteFile ''pricat.edi'' (fst (generate_pricat w0 small_record (Some ''pricat.edi'') False))]"
proof -
  have d: "dirname ''pricat.edi'' = []" by (simp add: dirname_def rfind_def)
  have "\<not> path_exists w0 ''pricat.edi''" "makedirs_ok w0 ''.''" "write_ok w0 ''pricat.edi''"
    by (simp_all add: w0_def)
  with generate_pricat_saves [OF small_message, of "''pricat.edi''" False] d show ?thesis by simp
qed

lemma check_required_version_last:
  assumes "map_of data ''edifact_version'' = None"
    and "map_of data ''message_ref'' = Some (PStr mr)" and "map_of data ''doc_code'' = Some (PStr dc)"
    and "map_of data ''doc_number'' = Some (PStr dn)"
    and "map_of data ''parties'' = Some (PList (p # ps))"
    and "map_of data ''items'' = Some (PList (i # its))"
  shows "validate_data data vq vc = Inl (PRICATValidationError ''Missing required field: edifact_version'')"
  using assms by (simp add: validate_data_def required_fields_def isinstance_def)

lemma message_segments_result:
  assumes "message_segments w data = Inr (segs, st)"
  shows "\<exists>foot. generate_edi_segments w data False = Inr st \<and> segs = segments st @ foot"
  using assms by (auto simp: message_segments_def split: sum.splits)

text \<open>
  C3, as amended. There is no default EDIFACT version. A record without
  \<^verbatim>\<open>edifact_version\<close> is rejected by \<open>validate_data\<close> with a validation failure, which
  is \<^verbatim>\<open>Missing required field: edifact_version\<close> when the five fields checked before it
  are present, of the right type and, for the two lists, not empty; \<open>generate_pricat\<close>
  then returns the empty string and writes nothing. A record that passes validation
  carries a string \<^verbatim>\<open>edifact_version\<close> of the required format; its UNH header segment
  holds \<^verbatim>\<open>PRICAT:\<close> followed by that version in upper case, and it is the second segment
  of every message built for the record.
\<close>

theorem edifact_version_is_required:
  "(map_of data ''edifact_version'' = None \<longrightarrow>
      (\<exists>m. validate_data data VALID_QUALIFIERS VALID_CURRENCIES = Inl (PRICATValidationError m))
      \<and> generate_pricat w data filename overwrite = ([], []))
   \<and> (map_of data ''edifact_version'' = None \<longrightarrow>
       map_of data ''message_ref'' = Some (PStr mr) \<longrightarrow> map_of data ''doc_code'' = Some (PStr dc) \<longrightarrow>
       map_of data ''doc_number'' = Some (PStr dn) \<longrightarrow>
       map_of data ''parties'' = Some (PList (p # ps)) \<longrightarrow>
       map_of data ''items'' = Some (PList (i # its)) \<longrightarrow>
         validate_data data VALID_QUALIFIERS VALID_CURRENCIES
         = Inl (PRICATValidationError ''Missing required field: edifact_version''))
   \<and> (validate_data data VALID_QUALIFIERS VALID_CURRENCIES = Inr () \<longrightarrow>
      (\<exists>m v hs. map_of data ''message_ref'' = Some (PStr m)
         \<and> map_of data ''edifact_version'' = Some (PStr v) \<and> version_ok (upper v)
         \<and> header_segments w data = Inr hs
         \<and> hs ! 1 = ''UNH+'' @ m @ ''+PRICAT:'' @ upper v @ [apos]
         \<and> (\<forall>segs st. message_segments w data = Inr (segs, st) \<longrightarrow> segs ! 1 = hs ! 1)))"
proof (intro conjI impI)
  assume a: "map_of data ''edifact_version'' = None"
  have "''edifact_version'' \<in> fst ` set required_fields" by (simp add: required_fields_def)
  from validate_data_missing [OF a this]
  show "\<exists>m. validate_data data VALID_QUALIFIERS VALID_CURRENCIES = Inl (PRICATValidationError m)"
    by blast
  then show "generate_pricat w data filename overwrite = ([], [])"
    using generate_pricat_invalid by blast
next
  assume "map_of data ''edifact_version'' = None"
    "map_of data ''message_ref'' = Some (PStr mr)" "map_of data ''doc_code'' = Some (PStr dc)"
    "map_of data ''doc_number'' = Some (PStr dn)" "map_of data ''parties'' = Some (PList (p # ps))"
    "map_of data ''items'' = Some (PList (i # its))"
  then show "validate_data data VALID_QUALIFIERS VALID_CURRENCIES
             = Inl (PRICATValidationError ''Missing required field: edifact_version'')"
    by (rule check_required_version_last)
next
  assume v: "validate_data data VALID_QUALIFIERS VALID_CURRENCIES = Inr ()"
  from generate_valid [OF v, of w] obtain m ver c its' rest where
    m: "map_of data ''message_ref'' = Some (PStr m)" and ver: "map_of data ''edifact_version'' = Some (PStr ver)"
    and vo: "version_ok (upper ver)"
    and hs: "header_segments w data
             = Inr (UNA_SEGMENT # (''UNH+'' @ m @ ''+PRICAT:'' @ upper ver @ [apos]) # rest)"
    and alt: "(\<exists>st more. generate_edi_segments w data False = Inr st \<and> item_count st = length its'
                \<and> segments st
                    = UNA_SEGMENT # (''UNH+'' @ m @ ''+PRICAT:'' @ upper ver @ [apos]) # rest @ more)
             \<or> (generate_edi_segments w data False = Inl ValueError \<and> \<not> list_all printable its')"
    by blast
  let ?hs = "UNA_SEGMENT # (''UNH+'' @ m @ ''+PRICAT:'' @ upper ver @ [apos]) # rest"
  have unh: "?hs ! 1 = ''UNH+'' @ m @ ''+PRICAT:'' @ upper ver @ [apos]" by simp
  have all: "\<forall>segs st. message_segments w data = Inr (segs, st) \<longrightarrow> segs ! 1 = ?hs ! 1"
  proof (intro allI impI)
    fix segs st assume "message_segments w data = Inr (segs, st)"
    from message_segments_result [OF this] obtain foot where
      g: "generate_edi_segments w data False = Inr st" and s: "segs = segments st @ foot"
      by blast
    from alt g obtain more where
      "segments st = UNA_SEGMENT # (''UNH+'' @ m @ ''+PRICAT:'' @ upper ver @ [apos]) # rest @ more"
      by auto
    with s show "segs ! 1 = ?hs ! 1" by simp
  qed
  from m ver vo hs unh all
  show "\<exists>m v hs. map_of data ''message_ref'' = Some (PStr m)
         \<and> map_of data ''edifact_version'' = Some (PStr v) \<and> version_ok (upper v)
         \<and> header_segments w data = Inr hs
         \<and> hs ! 1 = ''UNH+'' @ m @ ''+PRICAT:'' @ upper v @ [apos]
         \<and> (\<forall>segs st. message_segments w data = Inr (segs, st) \<longrightarrow> segs ! 1 = hs ! 1)"
    by blast
qed

theorem edifact_version_is_required_witness:
  "map_of no_version_record ''edifact_version'' = None
   \<and> map_of no_version_record ''message_ref'' = Some (PStr ''MSG1'')
   \<and> map_of no_version_record ''doc_code'' = Some (PStr ''9'')
   \<and> map_of no_version_record ''doc_number'' = Some (PStr ''D1'')
   \<and> map_of no_version_record ''parties''
       = Some (PList (PDict [(''qualifier'', PStr ''BY''), (''id'', PStr ''B1'')] # []))
   \<and> map_of no_version_record ''items'' = Some (PList (widget # []))
   \<and> validate_data no_version_record VALID_QUALIFIERS VALID_CURRENCIES
       = Inl (PRICATValidationError ''Missing required field: edifact_version'')
   \<and> generate_pricat w0 no_version_record (Some ''pricat.edi'') False = ([], [])
   \<and> validate_data small_record VALID_QUALIFIERS VALID_CURRENCIES = Inr ()
   \<and> map_sum id (\<lambda>hs. hs ! 1) (header_segments w0 small_record)
       = Inr (''UNH+MSG1+PRICAT:D:96A:UN'' @ [apos])
   \<and> map_sum id (\<lambda>r. fst r ! 1) (message_segments w0 small_record)
       = Inr (''UNH+MSG1+PRICAT:D:96A:UN'' @ [apos])"
proof -
  note t = edifact_version_is_required
  have a: "map_of no_version_record ''edifact_version'' = None"
    and a1: "map_of no_version_record ''message_ref'' = Some (PStr ''MSG1'')"
    and a2: "map_of no_version_record ''doc_code'' = Some (PStr ''9'')"
    and a3: "map_of no_version_record ''doc_number'' = Some (PStr ''D1'')"
    and a4: "map_of no_version_record ''parties''
             = Some (PList (PDict [(''qualifier'', PStr ''BY''), (''id'', PStr ''B1'')] # []))"
    and a5: "map_of no_version_record ''items'' = Some (PList (widget # []))"
    by (simp_all add: no_version_record_def small_base_def)
  from t [of no_version_record w0 "Some ''pricat.edi''" False] a
  have b: "generate_pricat w0 no_version_record (Some ''pricat.edi'') False = ([], [])" by blast
  from t [of no_version_record _ _ _ "''MSG1''" "''9''" "''D1''"
             "PDict [(''qualifier'', PStr ''BY''), (''id'', PStr ''B1'')]" "[]" widget "[]"]
       a a1 a2 a3 a4 a5
  have c: "validate_data no_version_record VALID_QUALIFIERS VALID_CURRENCIES
           = Inl (PRICATValidationError ''Missing required field: edifact_version'')"
    by blast
  from t [of small_record w0] small_record_valid
  obtain m v hs where
    m: "map_of small_record ''message_ref'' = Some (PStr m)"
    and v: "map_of small_record ''edifact_version'' = Some (PStr v)"
    and hs: "header_segments w0 small_record = Inr hs"
    and unh: "hs ! 1 = ''UNH+'' @ m @ ''+PRICAT:'' @ upper v @ [apos]"
    and ms: "\<forall>segs st. message_segments w0 small_record = Inr (segs, st) \<longrightarrow> segs ! 1 = hs ! 1"
    by blast
  from m have mm: "m = ''MSG1''" by (simp add: small_record_def small_base_def)
  from v have vv: "v = ''D:96A:UN''" by (simp add: small_record_def small_base_def)
  have up: "upper ''D:96A:UN'' = ''D:96A:UN''" by (simp add: upper_def to_upper_def)
  have d: "map_sum id (\<lambda>hs. hs ! 1) (header_segments w0 small_record)
           = Inr (''UNH+MSG1+PRICAT:D:96A:UN'' @ [apos])"
    using unh by (simp add: hs mm vv up)
  obtain segs st where s: "message_segments w0 small_record = Inr (segs, st)"
    using small_message by blast
  with ms have "segs ! 1 = hs ! 1" by blast
  then have e: "map_sum id (\<lambda>r. fst r ! 1) (message_segments w0 small_record)
       = Inr (''UNH+MSG1+PRICAT:D:96A:UN'' @ [apos])"
    using unh by (simp add: s mm vv up)
  from a a1 a2 a3 a4 a5 b c d e small_record_valid show ?thesis by simp
qed

theorem missing_version_counterexample:
  "validate_data no_version_record VALID_QUALIFIERS VALID_CURRENCIES
     = Inl (PRICATValidationError ''Missing required field: edifact_version'')
   \<and> generate_pricat w0 no_version_record (Some ''pricat.edi'') False = ([], [])"
  using no_version_record_invalid generate_pricat_invalid [OF no_version_record_invalid] by simp

subsection \<open>Item failures through the entry point\<close>



text \<open>
  On a record that passes validation no item can fail in the encoder with an exception
  that the item handler catches, so the encoder returns the same state, or raises the
  same \<^verbatim>\<open>ValueError\<close>, whether it is called with \<^verbatim>\<open>strict=False\<close> or \<^verbatim>\<open>strict=True\<close>.
\<close>

lemma validated_modes_agree:
  "validate_data data vq vc = Inr () \<Longrightarrow>
   generate_edi_segments w data True = generate_edi_segments w data False"
  using generate_valid [of data vq vc w] by blast






subsection \<open>Item failures in the encoder\<close>












subsection \<open>Fields copied verbatim\<close>

lemma enumerate_member: "n < length xs \<Longrightarrow> (n + 1, xs ! n) \<in> set (enumerate 1 xs)"
  by (simp add: in_set_enumerate_eq)

text \<open>
  C9. In every successful run of \<open>generate_edi_segments\<close> the text fields are copied into
  their segments as they are: \<^verbatim>\<open>message_ref\<close> into UNH, \<^verbatim>\<open>doc_code\<close> and
  \<^verbatim>\<open>doc_number\<close> into BGM and RFF, a party's qualifier and id into its NAD segment, an
  encoded item's \<^verbatim>\<open>product_code\<close> into LIN, and its quantity and unit into QTY. Only the
  description passes through \<open>escape_edifact\<close> on its way into IMD. An apostrophe in any of
  the other fields therefore reaches the output unescaped.
\<close>

theorem only_description_is_escaped:
  assumes "generate_edi_segments w data strict = Inr st"
  shows "(map_of data ''message_ref'' = Some (PStr m) \<longrightarrow>
            (\<exists>v. map_of data ''edifact_version'' = Some (PStr v)
               \<and> segments st ! 1 = ''UNH+'' @ m @ ''+PRICAT:'' @ upper v @ [apos]))
       \<and> (map_of data ''doc_code'' = Some (PStr dc) \<longrightarrow> map_of data ''doc_number'' = Some (PStr dn) \<longrightarrow>
            segments st ! 2 = ''BGM+'' @ dc @ ''+'' @ dn @ ''+9'' @ [apos]
            \<and> segments st ! 5 = ''RFF+ON:'' @ dn @ [apos])
       \<and> (map_of data ''parties'' = Some (PList ps) \<longrightarrow> j < length ps \<longrightarrow> ps ! j = PDict kvs \<longrightarrow>
          map_of kvs ''qualifier'' = Some (PStr q) \<longrightarrow> map_of kvs ''id'' = Some (PStr i) \<longrightarrow>
            segments st ! (6 + j) = ''NAD+'' @ q @ ''+'' @ i @ ''::91'' @ [apos])
       \<and> (map_of data ''items'' = Some (PList its) \<longrightarrow> n < length its \<longrightarrow> its ! n = PDict ikvs \<longrightarrow>
          map_of ikvs ''product_code'' = Some (PStr pc) \<longrightarrow> map_of ikvs ''description'' = Some (PStr ds) \<longrightarrow>
          map_of ikvs ''price'' = Some p \<longrightarrow> validate_price p = Inr d \<longrightarrow>
            ''LIN+'' @ show_nat (n + 1) @ ''++'' @ pc @ '':EN'' @ [apos] \<in> set (segments st)
            \<and> ''IMD+F++:::'' @ replace_char apos ''?+'' ds @ [apos] \<in> set (segments st)
            \<and> (map_of ikvs ''quantity'' = Some (PStr qty) \<longrightarrow> map_of ikvs ''unit'' = Some (PStr u) \<longrightarrow>
                 ''QTY+47:'' @ qty @ '':'' @ u @ [apos] \<in> set (segments st)))"
proof -
  from generate_result [OF assms] obtain hs pv ps' nads iv its' where
    hs: "header_segments w data = Inr hs" and pv: "map_of data ''parties'' = Some pv"
    and ps': "py_iter pv = Inr ps'" and ln: "length nads = length ps'"
    and nads: "\<forall>j<length ps'. party_segment (ps' ! j) = Inr (nads ! j)"
    and iv: "map_of data ''items'' = Some iv" and its': "py_iter iv = Inr its'"
    and il: "item_loop strict (enumerate 1 its')
              \<lparr>segments = hs @ nads, total_amount = Decimal False 0 (- 2), item_count = 0\<rparr> = Inr st"
    by blast
  from item_loop_grows [OF il] obtain add where seg: "segments st = hs @ nads @ add" by auto
  from header_segments_result [OF hs] obtain m0 v dc0 dn0 where
    m0: "map_of data ''message_ref'' = Some m0" and v: "map_of data ''edifact_version'' = Some (PStr v)"
    and dc0: "map_of data ''doc_code'' = Some dc0" and dn0: "map_of data ''doc_number'' = Some dn0"
    and hse: "hs = [UNA_SEGMENT,
                ''UNH+'' @ py_text m0 @ ''+PRICAT:'' @ upper v @ [apos],
                ''BGM+'' @ py_text dc0 @ ''+'' @ py_text dn0 @ ''+9'' @ [apos],
                ''DTM+137:'' @ today w @ '':102'' @ [apos],
                ''CUX+2:'' @ py_text (dict_get data ''currency'' (PStr ''EUR'')) @ '':9'' @ [apos],
                ''RFF+ON:'' @ py_text dn0 @ [apos]]"
    by blast
  have c1: "\<exists>v. map_of data ''edifact_version'' = Some (PStr v)
               \<and> segments st ! 1 = ''UNH+'' @ m @ ''+PRICAT:'' @ upper v @ [apos]"
    if "map_of data ''message_ref'' = Some (PStr m)"
    using that m0 v by (auto simp: seg hse py_text_PStr)
  have c2: "segments st ! 2 = ''BGM+'' @ dc @ ''+'' @ dn @ ''+9'' @ [apos]
            \<and> segments st ! 5 = ''RFF+ON:'' @ dn @ [apos]"
    if "map_of data ''doc_code'' = Some (PStr dc)" "map_of data ''doc_number'' = Some (PStr dn)"
    using that dc0 dn0 by (auto simp: seg hse py_text_PStr nth_Cons')
  have c3: "segments st ! (6 + j) = ''NAD+'' @ q @ ''+'' @ i @ ''::91'' @ [apos]"
    if "map_of data ''parties'' = Some (PList ps)" "j < length ps" "ps ! j = PDict kvs"
       "map_of kvs ''qualifier'' = Some (PStr q)" "map_of kvs ''id'' = Some (PStr i)"
  proof -
    from that(1) pv ps' have e: "ps' = ps" by (simp add: py_iter_def)
    with nads that(2,3) have "party_segment (PDict kvs) = Inr (nads ! j)" by auto
    with party_segment_ok [OF that(4) py_str_PStr that(5) py_str_PStr]
    have "nads ! j = ''NAD+'' @ q @ ''+'' @ i @ ''::91'' @ [apos]"
      by simp
    moreover have "length hs = 6" by (simp add: hse)
    ultimately show ?thesis using that(2) ln e by (simp add: seg nth_append)
  qed
  have c4: "''LIN+'' @ show_nat (n + 1) @ ''++'' @ pc @ '':EN'' @ [apos] \<in> set (segments st)
            \<and> ''IMD+F++:::'' @ replace_char apos ''?+'' ds @ [apos] \<in> set (segments st)
            \<and> (map_of ikvs ''quantity'' = Some (PStr qty) \<longrightarrow> map_of ikvs ''unit'' = Some (PStr u) \<longrightarrow>
                 ''QTY+47:'' @ qty @ '':'' @ u @ [apos] \<in> set (segments st))"
    if "map_of data ''items'' = Some (PList its)" "n < length its" "its ! n = PDict ikvs"
       "map_of ikvs ''product_code'' = Some (PStr pc)" "map_of ikvs ''description'' = Some (PStr ds)"
       "map_of ikvs ''price'' = Some p" "validate_price p = Inr d"
  proof -
    from that(1) iv its' have e: "its' = its" by (simp add: py_iter_def)
    from enumerate_member [OF that(2)] that(3) e have mem: "(n + 1, PDict ikvs) \<in> set (enumerate 1 its')"
      by simp
    from item_loop_emits [OF il mem that(4) py_str_PStr that(5,6,7)] obtain qs where
      qs: "quantity_segment (PDict ikvs) = Inr qs"
      and sub: "set ([''LIN+'' @ show_nat (n + 1) @ ''++'' @ pc @ '':EN'' @ [apos],
                      ''IMD+F++:::'' @ replace_char apos ''?+'' ds @ [apos],
                      ''PRI+AAA:'' @ format_2f d @ '':UP'' @ [apos],
                      ''PRI+AAB:'' @ format_2f d @ '':UP'' @ [apos]] @ qs)
                \<subseteq> set (segments st)"
      by blast
    from sub have "''LIN+'' @ show_nat (n + 1) @ ''++'' @ pc @ '':EN'' @ [apos] \<in> set (segments st)"
      and "''IMD+F++:::'' @ replace_char apos ''?+'' ds @ [apos] \<in> set (segments st)"
      by auto
    moreover have "''QTY+47:'' @ qty @ '':'' @ u @ [apos] \<in> set (segments st)"
      if "map_of ikvs ''quantity'' = Some (PStr qty)" "map_of ikvs ''unit'' = Some (PStr u)"
    proof -
      from that qs have "qs = [''QTY+47:'' @ qty @ '':'' @ u @ [apos]]"
        by (simp add: quantity_segment_dict py_str_PStr dict_get_def)
      with sub show ?thesis by simp
    qed
    ultimately show ?thesis by blast
  qed
  from c1 c2 c3 c4 show ?thesis by blast
qed

lemma price_one: "validate_price (PStr ''1'') = Inr (Decimal False 100 (- 2))"
  by (simp add: price_eval)

theorem only_description_is_escaped_witness:
  "\<not> isl (generate_edi_segments w0 quoted_record False)
   \<and> segments (projr (generate_edi_segments w0 quoted_record False)) ! 1
       = ''UNH+M'' @ [apos] @ ''1+PRICAT:D:96A:UN'' @ [apos]
   \<and> segments (projr (generate_edi_segments w0 quoted_record False)) ! 2
       = ''BGM+9'' @ [apos] @ ''+D'' @ [apos] @ ''1+9'' @ [apos]
   \<and> segments (projr (generate_edi_segments w0 quoted_record False)) ! 5
       = ''RFF+ON:D'' @ [apos] @ ''1'' @ [apos]
   \<and> segments (projr (generate_edi_segments w0 quoted_record False)) ! 6
       = ''NAD+B'' @ [apos] @ ''Y+B'' @ [apos] @ ''1::91'' @ [apos]
   \<and> ''LIN+1++P'' @ [apos] @ ''1:EN'' @ [apos]
       \<in> set (segments (projr (generate_edi_segments w0 quoted_record False)))
   \<and> ''IMD+F++:::O?+Neil'' @ [apos]
       \<in> set (segments (projr (generate_edi_segments w0 quoted_record False)))
   \<and> ''QTY+47:5'' @ [apos] @ '':PC'' @ [apos] @ ''E'' @ [apos]
       \<in> set (segments (projr (generate_edi_segments w0 quoted_record False)))"
proof -
  let ?party = "[(''qualifier'', PStr (''B'' @ [apos] @ ''Y'')), (''id'', PStr (''B'' @ [apos] @ ''1''))]"
  let ?item = "[(''product_code'', PStr (''P'' @ [apos] @ ''1'')),
                (''description'', PStr (''O'' @ [apos] @ ''Neil'')),
                (''price'', PStr ''1''),
                (''quantity'', PStr (''5'' @ [apos])),
                (''unit'', PStr (''PC'' @ [apos] @ ''E''))]"
  have m: "map_of quoted_record ''message_ref'' = Some (PStr (''M'' @ [apos] @ ''1''))"
    and v: "map_of quoted_record ''edifact_version'' = Some (PStr ''D:96A:UN'')"
    and dc: "map_of quoted_record ''doc_code'' = Some (PStr (''9'' @ [apos]))"
    and dn: "map_of quoted_record ''doc_number'' = Some (PStr (''D'' @ [apos] @ ''1''))"
    and ps: "map_of quoted_record ''parties'' = Some (PList [PDict ?party])"
    and its: "map_of quoted_record ''items'' = Some (PList [PDict ?item])"
    by (simp_all add: quoted_record_def)
  have q: "map_of ?party ''qualifier'' = Some (PStr (''B'' @ [apos] @ ''Y''))"
    and i: "map_of ?party ''id'' = Some (PStr (''B'' @ [apos] @ ''1''))"
    by simp_all
  have pc: "map_of ?item ''product_code'' = Some (PStr (''P'' @ [apos] @ ''1''))"
    and ds: "map_of ?item ''description'' = Some (PStr (''O'' @ [apos] @ ''Neil''))"
    and p: "map_of ?item ''price'' = Some (PStr ''1'')"
    and qty: "map_of ?item ''quantity'' = Some (PStr (''5'' @ [apos]))"
    and u: "map_of ?item ''unit'' = Some (PStr (''PC'' @ [apos] @ ''E''))"
    by simp_all
  have cur: "py_str (dict_get quoted_record ''currency'' (PStr ''EUR'')) = Inr ''EUR''"
    by (simp add: quoted_record_def dict_get_def py_str_PStr)
  note hs = header_segments_ok [OF m py_str_PStr v dc py_str_PStr dn py_str_PStr cur, of w0]
  from party_segment_ok [OF q py_str_PStr i py_str_PStr]
  obtain s where s: "party_segment (PDict ?party) = Inr s" by blast
  have qs: "quantity_segment (PDict ?item)
            = Inr [''QTY+47:'' @ (''5'' @ [apos]) @ '':'' @ (''PC'' @ [apos] @ ''E'') @ [apos]]"
    by (simp add: quantity_segment_dict py_str_PStr dict_get_def)
  from hs obtain h where h: "header_segments w0 quoted_record = Inr h" by blast
  have pl: "party_loop [PDict ?party] h = Inr (h @ [s])"
    by (simp only: party_loop.simps s sum.case)
  have en: "enumerate 1 [PDict ?item] = [(1, PDict ?item)]"
    by (simp only: enumerate_simps)
  have "\<exists>st. item_loop False [(1, PDict ?item)] st0 = Inr st" for st0
    by (simp only: item_loop.simps try_item_ok [OF pc py_str_PStr ds p price_one] qs sum.case
                   prod.case option.case) simp
  then have "\<exists>st. generate_edi_segments w0 quoted_record False = Inr st"
    unfolding generate_unfold [OF h ps pl its] en by blast
  then obtain st where g: "generate_edi_segments w0 quoted_record False = Inr st" by blast
  have up: "upper ''D:96A:UN'' = ''D:96A:UN''" by (simp add: upper_def to_upper_def)
  from only_description_is_escaped [OF g,
         where m = "''M'' @ [apos] @ ''1''" and dc = "''9'' @ [apos]" and dn = "''D'' @ [apos] @ ''1''"
           and ps = "[PDict ?party]" and j = 0 and kvs = ?party
           and q = "''B'' @ [apos] @ ''Y''" and i = "''B'' @ [apos] @ ''1''"
           and its = "[PDict ?item]" and n = 0 and ikvs = ?item
           and pc = "''P'' @ [apos] @ ''1''" and ds = "''O'' @ [apos] @ ''Neil''"
           and p = "PStr ''1''" and d = "Decimal False 100 (- 2)"
           and qty = "''5'' @ [apos]" and u = "''PC'' @ [apos] @ ''E''"]
       m v dc dn ps its q i pc ds p qty u price_one
  show ?thesis
    by (simp add: g up show_nat_one replace_char_def apos_def)
qed

end
